theory Spec2Isabelle
  imports
    Complex_Main
    "HOL-Library.Char_ord"
    "HOL-Library.List_Lexorder"
    "HOL-Library.Product_Lexorder"
    "HOL-Library.Multiset"
begin

section \<open>Strings and integers of the host language\<close>

text \<open>
  The program is Python. Its unbounded integers are modelled as \<open>int\<close> and its strings as
  lists of characters, a character being a code point below 256. The string methods the
  program calls are written out for these code points.

  White space for \<open>str.strip\<close> and \<open>str.split\<close> is tab to carriage return, the four
  separators 28 to 31, the blank, and the code points 133 and 160. \<open>int\<close> skips less: tab
  to carriage return and the blank, and, in a text that is not pure ASCII, 133 and 160 as
  well, which it first turns into blanks.
\<close>

definition is_space :: "char \<Rightarrow> bool" where
  "is_space c = (let n = (of_char c :: nat)
                 in (9 \<le> n \<and> n \<le> 13) \<or> (28 \<le> n \<and> n \<le> 32) \<or> n = 133 \<or> n = 160)"

definition is_c_space :: "char \<Rightarrow> bool" where
  "is_c_space c = (let n = (of_char c :: nat) in (9 \<le> n \<and> n \<le> 13) \<or> n = 32)"

definition is_digit :: "char \<Rightarrow> bool" where
  "is_digit c = (let n = (of_char c :: nat) in 48 \<le> n \<and> n \<le> 57)"

definition digit_of :: "char \<Rightarrow> nat" where
  "digit_of c = of_char c - 48"

text \<open>
  Letters: the capitals are \<open>A\<close> to \<open>Z\<close> and the code points 192 to 222 but 215, the small
  letters are 32 above them. \<open>str.lower\<close> maps every capital to its small letter and
  \<open>str.upper\<close> every small letter to its capital. Three more code points have an upper case
  in Python, which is not a code point below 256 or is two characters (181, 223, 255): the
  model leaves them unchanged. The program upper-cases only the sides of a range expression,
  and a side with one of the three is refused by the program and by the model alike, since
  neither the character nor its upper case can stand in a marker or in an integer literal.
\<close>

definition is_capital :: "char \<Rightarrow> bool" where
  "is_capital c = (let n = (of_char c :: nat)
                   in (65 \<le> n \<and> n \<le> 90) \<or> (192 \<le> n \<and> n \<le> 222 \<and> n \<noteq> 215))"

definition is_small :: "char \<Rightarrow> bool" where
  "is_small c = (let n = (of_char c :: nat)
                 in (97 \<le> n \<and> n \<le> 122) \<or> (224 \<le> n \<and> n \<le> 254 \<and> n \<noteq> 247))"

definition upper_char :: "char \<Rightarrow> char" where
  "upper_char c = (if is_small c then char_of ((of_char c :: nat) - 32) else c)"

definition lower_char :: "char \<Rightarrow> char" where
  "lower_char c = (if is_capital c then char_of ((of_char c :: nat) + 32) else c)"

text \<open>
  Two characters are the same letter when they are equal or one is the capital of the
  other; two strings differ at most in case when they are the same letter position by
  position.
\<close>

definition same_letter :: "char \<Rightarrow> char \<Rightarrow> bool" where
  "same_letter c d \<longleftrightarrow>
     c = d
     \<or> (is_capital c \<and> (of_char d :: nat) = of_char c + 32)
     \<or> (is_capital d \<and> (of_char c :: nat) = of_char d + 32)"

definition same_up_to_case :: "string \<Rightarrow> string \<Rightarrow> bool" where
  "same_up_to_case s t = list_all2 same_letter s t"

definition str_upper :: "string \<Rightarrow> string" where
  "str_upper s = map upper_char s"

definition str_lower :: "string \<Rightarrow> string" where
  "str_lower s = map lower_char s"

text \<open>\<open>s.strip()\<close>: white space removed at both ends.\<close>

definition str_strip :: "string \<Rightarrow> string" where
  "str_strip s = rev (dropWhile is_space (rev (dropWhile is_space s)))"

text \<open>\<open>s.split(sep)\<close> for a separator of one character: the empty string gives one empty part.\<close>

fun str_split :: "char \<Rightarrow> string \<Rightarrow> string list" where
  "str_split sep [] = [[]]"
| "str_split sep (c # cs) =
     (if c = sep then [] # str_split sep cs
      else (case str_split sep cs of [] \<Rightarrow> [[c]] | p # ps \<Rightarrow> (c # p) # ps))"

text \<open>
  \<open>s.split()\<close>: the maximal runs of characters that are not white space, never an empty
  word. \<open>cur\<close> is the word being read.
\<close>

fun split_ws :: "string \<Rightarrow> string \<Rightarrow> string list" where
  "split_ws cur [] = (if cur = [] then [] else [cur])"
| "split_ws cur (c # cs) =
     (if is_space c then (if cur = [] then split_ws [] cs else cur # split_ws [] cs)
      else split_ws (cur @ [c]) cs)"

definition str_split_ws :: "string \<Rightarrow> string list" where
  "str_split_ws s = split_ws [] s"

text \<open>\<open>sep.join(words)\<close>.\<close>

fun str_join :: "string \<Rightarrow> string list \<Rightarrow> string" where
  "str_join sep [] = []"
| "str_join sep [w] = w"
| "str_join sep (w # v # ws) = w @ sep @ str_join sep (v # ws)"

text \<open>
  \<open>s.replace(old, new)\<close> for a non-empty \<open>old\<close>: the occurrences are replaced from the
  left and do not overlap.
\<close>

function str_replace :: "string \<Rightarrow> string \<Rightarrow> string \<Rightarrow> string" where
  "str_replace old new [] = []"
| "str_replace old new (c # cs) =
     (if old \<noteq> [] \<and> take (length old) (c # cs) = old
      then new @ str_replace old new (drop (length old) (c # cs))
      else c # str_replace old new cs)"
  by pat_completeness auto
termination
  by (relation "measure (\<lambda>(old, new, s). length s)") auto

text \<open>
  \<open>int(s)\<close> on a string, base 10: the code points 133 and 160 count as blanks, the white
  space of \<open>is_c_space\<close> around the literal is skipped, one sign is allowed, then digits,
  where single underscores may stand between two digits. \<open>None\<close> stands for the
  \<open>ValueError\<close> that \<open>int\<close> raises. \<open>int_digits\<close> reads what follows a digit.

  The interpreter also refuses a literal of more digits than its limit
  \<open>sys.get_int_max_str_digits()\<close>, which is 4300 unless configured otherwise and 0 when
  there is no limit (as in the interpreters that came before the limit). The limit is the
  parameter \<open>max_digits\<close> of \<open>int_of_str\<close> and of every function that calls it.
\<close>

fun int_digits :: "nat \<Rightarrow> string \<Rightarrow> nat option" where
  "int_digits acc [] = Some acc"
| "int_digits acc [c] = (if is_digit c then Some (acc * 10 + digit_of c) else None)"
| "int_digits acc (c # d # cs) =
     (if is_digit c then int_digits (acc * 10 + digit_of c) (d # cs)
      else if c = CHR ''_'' \<and> is_digit d then int_digits (acc * 10 + digit_of d) cs
      else None)"

definition int_unsigned :: "string \<Rightarrow> nat option" where
  "int_unsigned s = (case s of [] \<Rightarrow> None
                     | c # cs \<Rightarrow> if is_digit c then int_digits (digit_of c) cs else None)"

definition int_text :: "string \<Rightarrow> string" where
  "int_text s = map (\<lambda>c. if (of_char c :: nat) = 133 \<or> (of_char c :: nat) = 160
                          then CHR '' '' else c) s"

definition c_strip :: "string \<Rightarrow> string" where
  "c_strip s = rev (dropWhile is_c_space (rev (dropWhile is_c_space s)))"

definition over_limit :: "nat \<Rightarrow> string \<Rightarrow> bool" where
  "over_limit max_digits s \<longleftrightarrow>
     0 < max_digits \<and> max_digits < length (filter is_digit s)"

definition int_of_str :: "nat \<Rightarrow> string \<Rightarrow> int option" where
  "int_of_str max_digits s =
     (if over_limit max_digits s then None
      else
        (case c_strip (int_text s) of
           [] \<Rightarrow> None
         | c # cs \<Rightarrow>
             if c = CHR ''-'' then map_option (\<lambda>n. - int n) (int_unsigned cs)
             else if c = CHR ''+'' then map_option int (int_unsigned cs)
             else map_option int (int_unsigned (c # cs))))"

text \<open>Slices \<open>s[a:b]\<close> with indices that are not negative.\<close>

definition slice :: "nat \<Rightarrow> nat \<Rightarrow> 'a list \<Rightarrow> 'a list" where
  "slice a b xs = take (b - a) (drop a xs)"

text \<open>\<open>xs[:n]\<close> for any integer \<open>n\<close>: a negative \<open>n\<close> counts from the end.\<close>

definition slice_to :: "int \<Rightarrow> 'a list \<Rightarrow> 'a list" where
  "slice_to n xs = (if 0 \<le> n then take (nat n) xs else take (nat (int (length xs) + n)) xs)"

text \<open>\<open>s.index(c)\<close> where \<open>c\<close> is known to occur in \<open>s\<close>.\<close>

definition index_of :: "'a \<Rightarrow> 'a list \<Rightarrow> nat" where
  "index_of c s = length (takeWhile (\<lambda>x. x \<noteq> c) s)"

text \<open>
  The exceptions the modelled functions raise, one constructor for each place that raises.
\<close>

datatype exn =
    UnpackError nat       \<comment> \<open>\<open>ValueError\<close>: unpacking a list of that length into two names\<close>
  | MarkerError           \<comment> \<open>the bare \<open>raise ValueError\<close> of \<open>se_to_tuple\<close>\<close>
  | LiteralError string   \<comment> \<open>\<open>ValueError\<close>: \<open>int\<close> on a text that it refuses\<close>
  | OrderError            \<comment> \<open>\<open>ValueError("Range end must be >= range start.")\<close>\<close>
  | IndexError            \<comment> \<open>indexing an empty list\<close>
  | TypeError             \<comment> \<open>\<open>int(None)\<close>\<close>
  | NanError              \<comment> \<open>\<open>ValueError\<close>: \<open>int\<close> of a float that is NaN\<close>
  | OverflowError         \<comment> \<open>\<open>int\<close> of an infinite float\<close>

section \<open>Floats\<close>

text \<open>
  A Python float is a finite number, an infinity or NaN. The finite floats are taken as the
  reals they denote; the program only compares and negates them, which is exact. \<open>flt_lt\<close>
  and \<open>flt_le\<close> are the comparisons \<open><\<close> and \<open><=\<close> of Python: false as soon as one side is
  NaN. \<open>flt_ord\<close> places the floats that are not NaN in a linear order.
\<close>

datatype pyfloat = Finite real | PosInf | NegInf | NaN

fun flt_ord :: "pyfloat \<Rightarrow> int \<times> real" where
  "flt_ord (Finite r) = (0, r)"
| "flt_ord PosInf = (1, 0)"
| "flt_ord NegInf = (- 1, 0)"
| "flt_ord NaN = (0, 0)"

definition flt_lt :: "pyfloat \<Rightarrow> pyfloat \<Rightarrow> bool" where
  "flt_lt a b \<longleftrightarrow> a \<noteq> NaN \<and> b \<noteq> NaN \<and> flt_ord a < flt_ord b"


fun flt_neg :: "pyfloat \<Rightarrow> pyfloat" where
  "flt_neg (Finite r) = Finite (- r)"
| "flt_neg PosInf = NegInf"
| "flt_neg NegInf = PosInf"
| "flt_neg NaN = NaN"

section \<open>Range parser\<close>

text \<open>
  \<open>argparse.ArgumentTypeError\<close> with its message and the exception it was raised from.
\<close>

datatype arg_error = ArgumentTypeError string exn

definition range_message :: "string \<Rightarrow> string" where
  "range_message range_str =
     ''Invalid range format: '' @ [CHR 0x27] @ range_str @ [CHR 0x27]
       @ ''. Expected '' @ [CHR 0x27] @ ''SxEy>SxEy'' @ [CHR 0x27]"

text \<open>The two numeric components of a side: \<open>s[1:s.index("E")]\<close> and \<open>s[s.index("E")+1:]\<close>.\<close>

definition season_text :: "string \<Rightarrow> string" where
  "season_text s = slice 1 (index_of CHR ''E'' s) s"

definition episode_text :: "string \<Rightarrow> string" where
  "episode_text s = drop (index_of CHR ''E'' s + 1) s"

definition se_to_tuple :: "nat \<Rightarrow> string \<Rightarrow> exn + int \<times> int" where
  "se_to_tuple max_digits s0 =
     (let s = str_upper (str_strip s0) in
      if \<not> (take 1 s = ''S'' \<and> CHR ''E'' \<in> set s) then Inl MarkerError
      else
        (case int_of_str max_digits (season_text s) of
           None \<Rightarrow> Inl (LiteralError (season_text s))
         | Some s_idx \<Rightarrow>
             (case int_of_str max_digits (episode_text s) of
                None \<Rightarrow> Inl (LiteralError (episode_text s))
              | Some e_idx \<Rightarrow> Inr (s_idx, e_idx))))"

text \<open>
  \<open>parse_range\<close>: every exception of the body is caught and raised again as an
  \<open>ArgumentTypeError\<close> whose message quotes the input.
\<close>

definition parse_range :: "nat \<Rightarrow> string \<Rightarrow> arg_error + int \<times> int \<times> int \<times> int" where
  "parse_range max_digits range_str =
     (case str_split CHR ''>'' range_str of
        [left, right] \<Rightarrow>
          (case se_to_tuple max_digits left of
             Inl ex \<Rightarrow> Inl (ArgumentTypeError (range_message range_str) ex)
           | Inr (s1, e1) \<Rightarrow>
               (case se_to_tuple max_digits right of
                  Inl ex \<Rightarrow> Inl (ArgumentTypeError (range_message range_str) ex)
                | Inr (s2, e2) \<Rightarrow>
                    if s2 < s1 \<or> (s2 = s1 \<and> e2 < e1)
                    then Inl (ArgumentTypeError (range_message range_str) OrderError)
                    else Inr (s1, e1, s2, e2)))
      | parts \<Rightarrow> Inl (ArgumentTypeError (range_message range_str) (UnpackError (length parts))))"

text \<open>
  A side of the expression is malformed when, stripped and upper-cased as \<open>se_to_tuple\<close>
  does, it does not begin with \<open>S\<close>, does not contain \<open>E\<close>, or one of its two numeric
  components is not read as an integer by \<open>int\<close>. The parser is compared with this
  predicate.
\<close>

definition side_malformed :: "nat \<Rightarrow> string \<Rightarrow> bool" where
  "side_malformed max_digits x =
     (let s = str_upper (str_strip x)
      in take 1 s \<noteq> ''S'' \<or> CHR ''E'' \<notin> set s
         \<or> int_of_str max_digits (season_text s) = None
         \<or> int_of_str max_digits (episode_text s) = None)"

section \<open>Data model\<close>

text \<open>
  An episode is the dictionary built by \<open>normalize_row\<close> in \<open>svu_picker.py\<close>. The field
  names are the dictionary's keys. A rating is a float or absent (\<open>None\<close>).
  The type parameter is the type of the five text fields: \<open>normalize_row\<close> copies the cells
  of its row there unconverted, while the ranker and the detail view work on strings.
\<close>

record 't episode =
  season :: int
  episode :: int
  title :: 't
  air_date :: 't
  imdb_id :: 't
  imdb_rating :: "pyfloat option"
  features_george_huang :: bool
  heavy_finn_munch :: bool
  heavy_trial :: bool
  one_sentence_plot :: 't
  one_sentence_reason :: 't

section \<open>Filter engine\<close>

text \<open>\<open>in_range\<close>: the linearised position \<open>season*100 + episode\<close> lies in the closed range.\<close>

definition in_range :: "'t episode \<Rightarrow> int \<Rightarrow> int \<Rightarrow> int \<Rightarrow> int \<Rightarrow> bool" where
  "in_range ep s1 e1 s2 e2 =
     (let v = season ep * 100 + episode ep;
          start = s1 * 100 + e1;
          end = s2 * 100 + e2
      in start \<le> v \<and> v \<le> end)"

text \<open>
  The \<open>for\<close> loop of \<open>filter_episodes\<close>: \<open>out\<close> is the list being appended to, every
  \<open>continue\<close> is a recursive call that leaves it unchanged.
\<close>

fun filter_loop ::
  "'t episode list \<Rightarrow> int \<times> int \<times> int \<times> int \<Rightarrow> pyfloat \<Rightarrow> int \<times> int \<Rightarrow> int set \<Rightarrow>
   't episode list \<Rightarrow> 't episode list" where
  "filter_loop [] rng min_imdb allow_seasons ex_seasons out = out"
| "filter_loop (ep # eps) (s1, e1, s2, e2) min_imdb allow_seasons ex_seasons out =
     (if ex_seasons \<noteq> {} \<and> season ep \<in> ex_seasons
        then filter_loop eps (s1, e1, s2, e2) min_imdb allow_seasons ex_seasons out
      else if \<not> in_range ep s1 e1 s2 e2
        then filter_loop eps (s1, e1, s2, e2) min_imdb allow_seasons ex_seasons out
      else if \<not> (fst allow_seasons \<le> season ep \<and> season ep \<le> snd allow_seasons)
        then filter_loop eps (s1, e1, s2, e2) min_imdb allow_seasons ex_seasons out
      else if \<not> features_george_huang ep
        then filter_loop eps (s1, e1, s2, e2) min_imdb allow_seasons ex_seasons out
      else if heavy_finn_munch ep
        then filter_loop eps (s1, e1, s2, e2) min_imdb allow_seasons ex_seasons out
      else if heavy_trial ep
        then filter_loop eps (s1, e1, s2, e2) min_imdb allow_seasons ex_seasons out
      else if (case imdb_rating ep of None \<Rightarrow> True | Some r \<Rightarrow> flt_lt r min_imdb)
        then filter_loop eps (s1, e1, s2, e2) min_imdb allow_seasons ex_seasons out
      else filter_loop eps (s1, e1, s2, e2) min_imdb allow_seasons ex_seasons (out @ [ep]))"

text \<open>
  \<open>filter_episodes\<close>; \<open>exclude_seasons\<close> is an optional list, and \<open>exclude_seasons or []\<close>
  turns both \<open>None\<close> and the empty list into the empty set.
\<close>

definition filter_episodes ::
  "'t episode list \<Rightarrow> int \<times> int \<times> int \<times> int \<Rightarrow> pyfloat \<Rightarrow> int \<times> int \<Rightarrow> int list option \<Rightarrow>
   't episode list" where
  "filter_episodes episodes rng min_imdb allow_seasons exclude_seasons =
     (let ex_seasons = set (case exclude_seasons of None \<Rightarrow> [] | Some l \<Rightarrow> l)
      in filter_loop episodes rng min_imdb allow_seasons ex_seasons [])"

text \<open>
  The seven conditions under which the loop keeps a record. The last one is the rating gate
  as the loop has it: the rating is known and the comparison \<open>rating < min_imdb\<close> is false.
\<close>

definition keeps ::
  "int \<Rightarrow> int \<Rightarrow> int \<Rightarrow> int \<Rightarrow> pyfloat \<Rightarrow> int \<times> int \<Rightarrow> int set \<Rightarrow> 't episode \<Rightarrow> bool" where
  "keeps s1 e1 s2 e2 m al ex ep \<longleftrightarrow>
     season ep \<notin> ex
     \<and> s1 * 100 + e1 \<le> season ep * 100 + episode ep
     \<and> season ep * 100 + episode ep \<le> s2 * 100 + e2
     \<and> fst al \<le> season ep \<and> season ep \<le> snd al
     \<and> features_george_huang ep
     \<and> \<not> heavy_finn_munch ep
     \<and> \<not> heavy_trial ep
     \<and> (\<exists>r. imdb_rating ep = Some r \<and> \<not> flt_lt r m)"

section \<open>Record normaliser\<close>

text \<open>
  The cells of an input row: \<open>csv.DictReader\<close> gives strings (and \<open>None\<close> for a missing
  cell), the built-in sample rows hold integers, floats and booleans. A row is a dictionary
  from column names to cells.
\<close>

datatype pyval = PNone | PBool bool | PInt int | PFloat pyfloat | PStr string

type_synonym row = "string \<rightharpoonup> pyval"

text \<open>\<open>r.get(k)\<close>: \<open>None\<close> for a missing key.\<close>

definition row_get :: "row \<Rightarrow> string \<Rightarrow> pyval" where
  "row_get r k = (case r k of None \<Rightarrow> PNone | Some v \<Rightarrow> v)"

text \<open>Truth value of a cell, and \<open>a or b\<close>.\<close>

fun truthy :: "pyval \<Rightarrow> bool" where
  "truthy PNone = False"
| "truthy (PBool b) = b"
| "truthy (PInt i) = (i \<noteq> 0)"
| "truthy (PFloat x) = (x \<noteq> Finite 0)"
| "truthy (PStr s) = (s \<noteq> [])"

definition py_or :: "pyval \<Rightarrow> pyval \<Rightarrow> pyval" where
  "py_or a b = (if truthy a then a else b)"

text \<open>
  \<open>int(v)\<close>: a finite float is truncated towards zero, NaN and the infinities raise, a
  string is parsed.
\<close>

fun py_int :: "nat \<Rightarrow> pyval \<Rightarrow> exn + int" where
  "py_int max_digits PNone = Inl TypeError"
| "py_int max_digits (PBool b) = Inr (if b then 1 else 0)"
| "py_int max_digits (PInt i) = Inr i"
| "py_int max_digits (PFloat (Finite x)) = Inr (if 0 \<le> x then \<lfloor>x\<rfloor> else \<lceil>x\<rceil>)"
| "py_int max_digits (PFloat NaN) = Inl NanError"
| "py_int max_digits (PFloat PosInf) = Inl OverflowError"
| "py_int max_digits (PFloat NegInf) = Inl OverflowError"
| "py_int max_digits (PStr s) =
     (case int_of_str max_digits s of None \<Rightarrow> Inl (LiteralError s) | Some i \<Rightarrow> Inr i)"

text \<open>
  \<open>to_bool\<close>: a boolean is itself, \<open>None\<close> is false, anything else is true when its text,
  stripped and lower-cased, is in the accepted vocabulary. The text of an integer is in the
  vocabulary only for 1, the text of a float never is.
\<close>

fun to_bool :: "pyval \<Rightarrow> bool" where
  "to_bool (PBool b) = b"
| "to_bool PNone = False"
| "to_bool (PStr s) = (str_lower (str_strip s) \<in> set [''1'', ''true'', ''yes'', ''y'', ''t''])"
| "to_bool (PInt i) = (i = 1)"
| "to_bool (PFloat x) = False"

text \<open>
  \<open>to_float\<close>: \<open>float(v)\<close>, with every exception turned into \<open>None\<close>. Reading a float from
  a string and rounding an integer to a float are parameters of the model, \<open>float_of_str\<close>
  and \<open>float_of_int\<close>; \<open>None\<close> is their exception (\<open>ValueError\<close>, \<open>OverflowError\<close>).
  \<open>float_of_str\<close> may return NaN or an infinity, as \<open>float\<close> does on the texts \<open>nan\<close>
  and \<open>inf\<close>.
\<close>

fun to_float ::
  "(string \<Rightarrow> pyfloat option) \<Rightarrow> (int \<Rightarrow> pyfloat option) \<Rightarrow> pyval \<Rightarrow> pyfloat option" where
  "to_float float_of_str float_of_int PNone = None"
| "to_float float_of_str float_of_int (PBool b) = Some (Finite (if b then 1 else 0))"
| "to_float float_of_str float_of_int (PInt i) = float_of_int i"
| "to_float float_of_str float_of_int (PFloat x) = Some x"
| "to_float float_of_str float_of_int (PStr s) = float_of_str s"

text \<open>
  \<open>normalize_row\<close>. The dictionary literal is evaluated field by field, so an exception
  of \<open>int\<close> on the season comes before one on the episode; nothing else raises.
\<close>

definition normalize_row ::
  "nat \<Rightarrow> (string \<Rightarrow> pyfloat option) \<Rightarrow> (int \<Rightarrow> pyfloat option) \<Rightarrow> row \<Rightarrow>
   exn + pyval episode" where
  "normalize_row max_digits float_of_str float_of_int r =
     (case py_int max_digits (py_or (row_get r ''season'') (PInt 0)) of
        Inl ex \<Rightarrow> Inl ex
      | Inr s \<Rightarrow>
          (case py_int max_digits (py_or (row_get r ''episode'') (PInt 0)) of
             Inl ex \<Rightarrow> Inl ex
           | Inr e \<Rightarrow>
               Inr \<lparr> season = s,
                     episode = e,
                     title = py_or (py_or (row_get r ''title'') (row_get r ''name'')) (PStr ''''),
                     air_date = py_or (row_get r ''air_date'') (PStr ''''),
                     imdb_id = py_or (row_get r ''imdb_id'') (PStr ''''),
                     imdb_rating = to_float float_of_str float_of_int
                                     (row_get r ''imdb_rating''),
                     features_george_huang = to_bool (row_get r ''features_george_huang''),
                     heavy_finn_munch = to_bool (row_get r ''heavy_finn_munch''),
                     heavy_trial = to_bool (row_get r ''heavy_trial''),
                     one_sentence_plot = py_or (row_get r ''one_sentence_plot'') (PStr ''''),
                     one_sentence_reason = py_or (row_get r ''one_sentence_reason'') (PStr '''') \<rparr>))"

text \<open>
  What a season or episode cell reads as, in the words of the specification: 0 when the
  cell is absent or empty, the integer when the cell holds one or is the text of one. A text
  that \<open>int\<close> refuses reads as nothing.
\<close>

definition cell_reads :: "nat \<Rightarrow> pyval option \<Rightarrow> int \<Rightarrow> bool" where
  "cell_reads max_digits c i \<longleftrightarrow>
     (c = None \<or> c = Some PNone \<or> c = Some (PStr '''')) \<and> i = 0
     \<or> c = Some (PInt i)
     \<or> (\<exists>s. c = Some (PStr s) \<and> int_of_str max_digits s = Some i)"

section \<open>Ranker\<close>

text \<open>
  The sort key of \<open>rank_and_select\<close> is \<open>(-float(rating or 0.0), title)\<close>.
  \<open>rating_or_zero\<close> is \<open>float(rating or 0.0)\<close>: 0.0 for an absent rating and for 0.0
  itself, the rating otherwise.
\<close>

definition rating_or_zero :: "'t episode \<Rightarrow> pyfloat" where
  "rating_or_zero e =
     (case imdb_rating e of
        None \<Rightarrow> Finite 0
      | Some x \<Rightarrow> if x \<noteq> Finite 0 then x else Finite 0)"

text \<open>
  Python compares the key pairs lexicographically, the floats by \<open><\<close> and the titles by
  code point. When no rating is NaN this is the linear order of the pairs of \<open>rank_key\<close>.
\<close>

definition rank_key :: "string episode \<Rightarrow> (int \<times> real) \<times> string" where
  "rank_key e = (flt_ord (flt_neg (rating_or_zero e)), title e)"

text \<open>
  \<open>rank_and_select\<close>: \<open>sorted\<close>, then the slice \<open>[:n]\<close>. On keys that are linearly
  ordered \<open>sorted\<close> is the stable sort. A NaN key compares false with every key, in both
  directions; the list \<open>sorted\<close> returns then depends on the merge strategy of the
  interpreter and is the parameter \<open>sorted_nan\<close> of the model. The call
  \<open>random.seed(seed)\<close> does not touch the result and is left out.
\<close>

definition rank_and_select ::
  "(string episode list \<Rightarrow> string episode list) \<Rightarrow> string episode list \<Rightarrow> int \<Rightarrow>
   string episode list" where
  "rank_and_select sorted_nan candidates n =
     (let candidates_sorted =
            (if list_ex (\<lambda>e. imdb_rating e = Some NaN) candidates
             then sorted_nan candidates
             else sort_key rank_key candidates)
      in slice_to n candidates_sorted)"

text \<open>
  The order of the specification between two candidates: the higher rating first, equal
  ratings by title ascending. \<open>ranks_before\<close> reads the ratings of two candidates that have
  one, \<open>ranks_before_zero\<close> counts an absent rating as 0.0.
\<close>

definition ranks_before :: "string episode \<Rightarrow> string episode \<Rightarrow> bool" where
  "ranks_before a b =
     (case (imdb_rating a, imdb_rating b) of
        (Some x, Some y) \<Rightarrow> flt_lt y x \<or> (x = y \<and> title a \<le> title b)
      | _ \<Rightarrow> False)"

definition ranks_before_zero :: "string episode \<Rightarrow> string episode \<Rightarrow> bool" where
  "ranks_before_zero a b =
     (flt_lt (rating_or_zero b) (rating_or_zero a)
      \<or> (rating_or_zero a = rating_or_zero b \<and> title a \<le> title b))"

text \<open>A candidate with its absent rating replaced by 0.0.\<close>

definition unknown_as_zero :: "string episode \<Rightarrow> string episode" where
  "unknown_as_zero e =
     (case imdb_rating e of None \<Rightarrow> e\<lparr>imdb_rating := Some (Finite 0)\<rparr> | Some r \<Rightarrow> e)"

section \<open>Detail expander\<close>

text \<open>
  The padding loop of \<open>expand_sentence_to_bullets\<close>:
  \<open>while len(bullets) < max_bullets: bullets.append(bullets[-1])\<close>. On the empty list
  \<open>bullets[-1]\<close> raises \<open>IndexError\<close>.
\<close>

function pad_bullets :: "nat \<Rightarrow> string list \<Rightarrow> exn + string list" where
  "pad_bullets max_bullets bullets =
     (if length bullets < max_bullets
      then (if bullets = [] then Inl IndexError
            else pad_bullets max_bullets (bullets @ [last bullets]))
      else Inr bullets)"
  by pat_completeness auto
termination
  by (relation "measure (\<lambda>(max_bullets, bullets). max_bullets - length bullets)") auto

declare pad_bullets.simps [simp del]

text \<open>
  The chunks of the \<open>for\<close> loop: chunk \<open>i\<close> joins the words \<open>words[i*approx:(i+1)*approx]\<close>,
  and the chunks that are not empty are appended, stripped.
\<close>

definition word_chunks :: "nat \<Rightarrow> nat \<Rightarrow> string list \<Rightarrow> string list" where
  "word_chunks max_bullets approx words =
     map str_strip
       (filter (\<lambda>chunk. chunk \<noteq> [])
          (map (\<lambda>i. str_join '' '' (slice (i * approx) ((i + 1) * approx) words))
               [0 ..< max_bullets]))"

definition expand_sentence_to_bullets :: "string \<Rightarrow> nat \<Rightarrow> exn + string list" where
  "expand_sentence_to_bullets sentence max_bullets =
     (if sentence = [] then Inr (replicate max_bullets ''(No detail available)'')
      else
        let parts = filter (\<lambda>p. p \<noteq> [])
                      (map str_strip (str_split CHR '','' (str_replace '' and '' '', '' sentence)))
        in if length parts < max_bullets
           then
             (let words = str_split_ws sentence;
                  approx = max 1 (length words div max_bullets)
              in case pad_bullets max_bullets (word_chunks max_bullets approx words) of
                   Inl ex \<Rightarrow> Inl ex
                 | Inr bullets \<Rightarrow> Inr (take max_bullets bullets))
           else Inr (take max_bullets parts))"

text \<open>
  \<open>details_expand\<close> up to the rendering: the header fields and the two lists of bullets
  that the function prints line by line. \<open>max_bullets\<close> has its default, 4.
\<close>

record details =
  d_title :: string
  d_air_date :: string
  d_rating :: "pyfloat option"
  plot_bullets :: "string list"
  reason_bullets :: "string list"

definition details_expand :: "string episode \<Rightarrow> exn + details" where
  "details_expand ep =
     (case expand_sentence_to_bullets (one_sentence_plot ep) 4 of
        Inl ex \<Rightarrow> Inl ex
      | Inr pb \<Rightarrow>
          (case expand_sentence_to_bullets (one_sentence_reason ep) 4 of
             Inl ex \<Rightarrow> Inl ex
           | Inr rb \<Rightarrow>
               Inr \<lparr> d_title = title ep, d_air_date = air_date ep, d_rating = imdb_rating ep,
                     plot_bullets = pb, reason_bullets = rb \<rparr>))"

section \<open>Detail lookup by title\<close>

text \<open>
  The details-only branch of \<open>main\<close>, entered when \<open>--details\<close> is a non-empty string: the
  process prints the expansion of the first match and exits with status 0, or prints that
  no episode was found and exits with status 1; an exception of \<open>details_expand\<close> ends it.
\<close>

datatype outcome =
    NotFound string      \<comment> \<open>the message printed; exit status 1\<close>
  | Shown details        \<comment> \<open>the expansion printed; exit status 0\<close>
  | Raised exn

definition details_mode :: "string episode list \<Rightarrow> string \<Rightarrow> outcome" where
  "details_mode episodes details_arg =
     (let t = str_strip details_arg;
          matched = filter (\<lambda>e. str_lower (title e) = str_lower t) episodes
      in case matched of
           [] \<Rightarrow> NotFound (''No episode found with title '' @ [CHR 0x27] @ t @ [CHR 0x27] @ ''.'')
         | e # _ \<Rightarrow> (case details_expand e of Inl ex \<Rightarrow> Raised ex | Inr d \<Rightarrow> Shown d))"

section \<open>Properties of the filter engine\<close>

lemma if_chain7:
  "(if a then x else if b then x else if c then x else if d then x
    else if e then x else if f then x else if g then x else y) =
   (if \<not> a \<and> \<not> b \<and> \<not> c \<and> \<not> d \<and> \<not> e \<and> \<not> f \<and> \<not> g then y else x)"
  by simp

lemma rating_gate:
  "(case ro of None \<Rightarrow> True | Some r \<Rightarrow> flt_lt r m) \<longleftrightarrow> \<not> (\<exists>r. ro = Some r \<and> \<not> flt_lt r m)"
  by (cases ro) auto


lemma filter_loop_step:
  "filter_loop (ep # eps) (s1, e1, s2, e2) m al ex out =
     filter_loop eps (s1, e1, s2, e2) m al ex
       (if keeps s1 e1 s2 e2 m al ex ep then out @ [ep] else out)"
proof -
  have c: "(\<not> (ex \<noteq> {} \<and> season ep \<in> ex) \<and> \<not> \<not> in_range ep s1 e1 s2 e2
        \<and> \<not> \<not> (fst al \<le> season ep \<and> season ep \<le> snd al)
        \<and> \<not> \<not> features_george_huang ep \<and> \<not> heavy_finn_munch ep \<and> \<not> heavy_trial ep
        \<and> \<not> (case imdb_rating ep of None \<Rightarrow> True | Some r \<Rightarrow> flt_lt r m))
     \<longleftrightarrow> keeps s1 e1 s2 e2 m al ex ep"
    unfolding rating_gate keeps_def in_range_def Let_def by blast
  show ?thesis
    unfolding filter_loop.simps if_chain7 c by simp
qed

lemma filter_loop_filter:
  "filter_loop eps (s1, e1, s2, e2) m al ex out =
     out @ filter (keeps s1 e1 s2 e2 m al ex) eps"
proof (induction eps arbitrary: out)
  case Nil
  show ?case by simp
next
  case (Cons ep eps)
  show ?case
    unfolding filter_loop_step Cons.IH by simp
qed



text \<open>
  C6. Filtering is idempotent: filtering the output of \<open>filter_episodes\<close> again with the
  same parameters returns the same list.
\<close>

theorem filter_episodes_idempotent:
  "filter_episodes (filter_episodes eps rng m al excl) rng m al excl =
     filter_episodes eps rng m al excl"
proof -
  obtain s1 e1 s2 e2 where rng: "rng = (s1, e1, s2, e2)"
    by (cases rng) auto
  show ?thesis
    unfolding rng filter_episodes_def Let_def filter_loop_filter by simp
qed

section \<open>Properties of the range parser\<close>

lemma of_char_eq_iff_nat: "(of_char c :: nat) = of_char d \<longleftrightarrow> c = d"
  by (metis char_of_char)

lemma upper_char_code: "(of_char (upper_char c) :: nat) =
   (if is_small c then of_char c - 32 else of_char c)"
  by (auto simp: upper_char_def is_small_def Let_def)

lemma is_space_upper_char: "is_space (upper_char c) = is_space c"
  unfolding is_space_def Let_def upper_char_code is_small_def by auto

lemma upper_char_gt: "upper_char c = CHR ''>'' \<longleftrightarrow> c = CHR ''>''"
proof -
  have "upper_char c = CHR ''>'' \<longleftrightarrow> (of_char (upper_char c) :: nat) = 62"
    using of_char_eq_iff_nat[of "upper_char c" "CHR ''>''"] by simp
  also have "\<dots> \<longleftrightarrow> (of_char c :: nat) = 62"
    unfolding upper_char_code is_small_def Let_def by auto
  also have "\<dots> \<longleftrightarrow> c = CHR ''>''"
    using of_char_eq_iff_nat[of c "CHR ''>''"] by simp
  finally show ?thesis .
qed

lemma not_space_gt: "\<not> is_space CHR ''>''"
  by (simp add: is_space_def)

lemma str_split_length: "length (str_split c s) = Suc (count_list s c)"
  by (induction s) (auto split: list.splits)

lemma str_split_none: "c \<notin> set s \<Longrightarrow> str_split c s = [s]"
  by (induction s) auto

lemma str_split_one: "c \<notin> set l \<Longrightarrow> str_split c (l @ c # r) = l # str_split c r"
  by (induction l) auto

lemma str_split_two: "c \<notin> set l \<Longrightarrow> c \<notin> set r \<Longrightarrow> str_split c (l @ [c] @ r) = [l, r]"
  by (simp add: str_split_one str_split_none)

lemma count_one_sides:
  assumes "count_list (l @ [c] @ r) c = 1"
  shows "c \<notin> set l \<and> c \<notin> set r"
proof -
  have "count_list l c + count_list r c = 0" using assms by simp
  then show ?thesis by (simp add: count_list_0_iff)
qed

lemma split_two_count:
  assumes "length (str_split c (l @ [c] @ r)) = 2"
  shows "count_list (l @ [c] @ r) c = 1"
proof -
  have "Suc (count_list (l @ [c] @ r) c) = 2"
    using assms unfolding str_split_length .
  then show ?thesis by simp
qed

lemma str_strip_spaces:
  assumes "\<forall>c\<in>set w1. is_space c" "\<forall>c\<in>set w2. is_space c"
  shows "str_strip (w1 @ x @ w2) = str_strip x"
proof -
  have a: "dropWhile is_space (w1 @ x @ w2) = dropWhile is_space (x @ w2)"
    using assms(1) by (simp add: dropWhile_append)
  have b: "dropWhile is_space (rev w2 @ ys) = dropWhile is_space ys" for ys
    using assms(2) by (simp add: dropWhile_append)
  show ?thesis
  proof (cases "\<forall>c\<in>set x. is_space c")
    case True
    then have e1: "dropWhile is_space (x @ w2) = []" and e2: "dropWhile is_space x = []"
      using assms(2) by auto
    show ?thesis unfolding str_strip_def a e1 e2 by simp
  next
    case False
    then obtain c where "c \<in> set x" "\<not> is_space c" by blast
    then have "dropWhile is_space (x @ w2) = dropWhile is_space x @ w2"
      by (rule dropWhile_append1)
    then show ?thesis by (simp add: str_strip_def a b)
  qed
qed

lemma str_upper_strip: "str_upper (str_strip x) = str_strip (str_upper x)"
  by (simp add: str_upper_def str_strip_def rev_map dropWhile_map comp_def is_space_upper_char)

lemma se_to_tuple_variant:
  assumes "\<forall>c\<in>set w1. is_space c" "\<forall>c\<in>set w2. is_space c" "str_upper x' = str_upper x"
  shows "se_to_tuple max_digits (w1 @ x' @ w2) = se_to_tuple max_digits x"
proof -
  have "str_upper (str_strip (w1 @ x' @ w2)) = str_upper (str_strip x)"
    unfolding str_strip_spaces[OF assms(1,2)] str_upper_strip assms(3) ..
  then show ?thesis by (simp add: se_to_tuple_def)
qed

lemma parse_range_two:
  assumes "str_split CHR ''>'' rs = [l, r]"
  shows "parse_range max_digits rs =
     (case se_to_tuple max_digits l of
        Inl ex \<Rightarrow> Inl (ArgumentTypeError (range_message rs) ex)
      | Inr (s1, e1) \<Rightarrow>
          (case se_to_tuple max_digits r of
             Inl ex \<Rightarrow> Inl (ArgumentTypeError (range_message rs) ex)
           | Inr (s2, e2) \<Rightarrow>
               if s2 < s1 \<or> (s2 = s1 \<and> e2 < e1)
               then Inl (ArgumentTypeError (range_message rs) OrderError)
               else Inr (s1, e1, s2, e2)))"
  by (simp add: parse_range_def assms)

lemma parse_range_not_two:
  assumes "length (str_split CHR ''>'' rs) \<noteq> 2"
  shows "parse_range max_digits rs =
     Inl (ArgumentTypeError (range_message rs) (UnpackError (length (str_split CHR ''>'' rs))))"
proof (cases "str_split CHR ''>'' rs")
  case Nil
  then show ?thesis by (simp add: parse_range_def)
next
  case (Cons a as)
  note outer = Cons
  show ?thesis
  proof (cases as)
    case Nil
    then show ?thesis by (simp add: parse_range_def outer)
  next
    case (Cons b bs)
    then have "bs \<noteq> []" using assms outer by auto
    then obtain c cs where "bs = c # cs" by (cases bs) auto
    then show ?thesis by (simp add: parse_range_def outer Cons)
  qed
qed

lemma parse_range_ok_split:
  assumes "parse_range max_digits rs = Inr q"
  shows "length (str_split CHR ''>'' rs) = 2"
proof (rule ccontr)
  assume "length (str_split CHR ''>'' rs) \<noteq> 2"
  from parse_range_not_two[OF this] assms show False by simp
qed

text \<open>
  C10. The range parser ignores letter case and white space around each side: when the
  expression \<open>l > r\<close> parses to a quadruple, every variant whose sides differ from \<open>l\<close> and
  \<open>r\<close> only in the case of letters (the same text after upper-casing, so in particular
  lower-case markers) and in added leading or trailing white space parses to the same
  quadruple.
\<close>

theorem parse_range_case_space_insensitive:
  assumes ok: "parse_range max_digits (l @ ''>'' @ r) = Inr q"
    and ws: "\<forall>c\<in>set (w1 @ w2 @ w3 @ w4). is_space c"
    and l': "str_upper l' = str_upper l"
    and r': "str_upper r' = str_upper r"
  shows "parse_range max_digits (w1 @ l' @ w2 @ ''>'' @ w3 @ r' @ w4) = Inr q"
proof -
  let ?gt = "CHR ''>''"
  have "count_list (l @ ''>'' @ r) ?gt = 1"
    by (rule split_two_count[OF parse_range_ok_split[OF ok]])
  from count_one_sides[OF this] have nl: "?gt \<notin> set l" and nr: "?gt \<notin> set r"
    by blast+
  have up: "?gt \<notin> set x'" if "str_upper x' = str_upper x" "?gt \<notin> set x" for x x'
  proof
    assume "?gt \<in> set x'"
    then have "upper_char ?gt \<in> set (str_upper x')" by (simp add: str_upper_def)
    moreover have "upper_char ?gt = ?gt" using upper_char_gt[of ?gt] by simp
    ultimately have "?gt \<in> set (str_upper x)" using that(1) by simp
    then obtain c where "c \<in> set x" "upper_char c = ?gt" by (auto simp: str_upper_def)
    then show False using that(2) by (simp add: upper_char_gt)
  qed
  have nws: "?gt \<notin> set w" if "\<forall>c\<in>set w. is_space c" for w
    using that not_space_gt by blast
  have w: "\<forall>c\<in>set w1. is_space c" "\<forall>c\<in>set w2. is_space c"
          "\<forall>c\<in>set w3. is_space c" "\<forall>c\<in>set w4. is_space c"
    using ws by auto
  have sl: "?gt \<notin> set (w1 @ l' @ w2)"
    using up[OF l' nl] nws[OF w(1)] nws[OF w(2)] by simp
  have sr: "?gt \<notin> set (w3 @ r' @ w4)"
    using up[OF r' nr] nws[OF w(3)] nws[OF w(4)] by simp
  have split1: "str_split ?gt (l @ ''>'' @ r) = [l, r]"
    by (rule str_split_two[OF nl nr])
  have "str_split ?gt ((w1 @ l' @ w2) @ ''>'' @ (w3 @ r' @ w4)) = [w1 @ l' @ w2, w3 @ r' @ w4]"
    by (rule str_split_two[OF sl sr])
  then have split2:
    "str_split ?gt (w1 @ l' @ w2 @ ''>'' @ w3 @ r' @ w4) = [w1 @ l' @ w2, w3 @ r' @ w4]"
    by (simp only: append_assoc)
  have vl: "se_to_tuple max_digits (w1 @ l' @ w2) = se_to_tuple max_digits l"
    by (rule se_to_tuple_variant[OF w(1,2) l'])
  have vr: "se_to_tuple max_digits (w3 @ r' @ w4) = se_to_tuple max_digits r"
    by (rule se_to_tuple_variant[OF w(3,4) r'])
  from ok obtain a where la: "se_to_tuple max_digits l = Inr a"
    unfolding parse_range_two[OF split1] by (cases "se_to_tuple max_digits l") auto
  from ok la obtain b where rb: "se_to_tuple max_digits r = Inr b"
    unfolding parse_range_two[OF split1] by (cases "se_to_tuple max_digits r") (auto split: prod.splits)
  obtain s1 e1 s2 e2 where a: "a = (s1, e1)" and b: "b = (s2, e2)"
    by (cases a, cases b) auto
  have good: "\<not> (s2 < s1 \<or> (s2 = s1 \<and> e2 < e1))" and q: "q = (s1, e1, s2, e2)"
    using ok unfolding parse_range_two[OF split1] la rb a b
    by (auto split: if_splits)
  show ?thesis
    unfolding parse_range_two[OF split2] vl vr la rb a b q
    using good by simp
qed

text \<open>The lower-case, padded variant of \<open>S2E1>S6E20\<close>.\<close>

theorem parse_range_case_space_insensitive_witness:
  "parse_range 4300 (''S2E1'' @ ''>'' @ ''S6E20'') = Inr (2, 1, 6, 20)
   \<and> list_all is_space ('' '' @ [CHR 0x09] @ ''  '' @ [CHR 0x0A])
   \<and> str_upper ''s2e1'' = str_upper ''S2E1''
   \<and> str_upper ''s6E20'' = str_upper ''S6E20''
   \<and> parse_range 4300 ('' '' @ ''s2e1'' @ [CHR 0x09] @ ''>'' @ ''  '' @ ''s6E20'' @ [CHR 0x0A])
       = Inr (2, 1, 6, 20)"
proof -
  have h1: "parse_range 4300 (''S2E1'' @ ''>'' @ ''S6E20'') = Inr (2, 1, 6, 20)"
    by code_simp
  have h2': "list_all is_space ('' '' @ [CHR 0x09] @ ''  '' @ [CHR 0x0A])"
    by code_simp
  then have h2: "\<forall>c\<in>set ('' '' @ [CHR 0x09] @ ''  '' @ [CHR 0x0A]). is_space c"
    by (simp only: list_all_iff)
  have h3: "str_upper ''s2e1'' = str_upper ''S2E1''"
    by code_simp
  have h4: "str_upper ''s6E20'' = str_upper ''S6E20''"
    by code_simp
  show ?thesis
    using parse_range_case_space_insensitive[OF h1 h2 h3 h4] h1 h2' h3 h4 by blast
qed

lemma se_to_tuple_malformed:
  "side_malformed max_digits x \<Longrightarrow> \<exists>ex. se_to_tuple max_digits x = Inl ex"
  unfolding side_malformed_def se_to_tuple_def Let_def
  by (auto split: option.splits)

text \<open>
  C7, as amended. The markers are looked for after the side has been stripped of white space
  and upper-cased. For every input string, \<open>parse_range\<close> fails with the format error, whose
  message quotes the input, whenever the string does not contain exactly one \<open>>\<close>, or a
  side, stripped and upper-cased, does not begin with \<open>S\<close>, does not contain \<open>E\<close>, or has
  a numeric component that \<open>int\<close> does not read as an integer. \<open>S2-E1>S3E1\<close> is such
  an input.
\<close>

theorem parse_range_rejects:
  assumes "count_list rs CHR ''>'' \<noteq> 1
           \<or> (\<exists>l r. rs = l @ ''>'' @ r
                  \<and> (side_malformed max_digits l \<or> side_malformed max_digits r))"
  shows "\<exists>ex. parse_range max_digits rs =
           Inl (ArgumentTypeError
                  (''Invalid range format: '' @ [CHR 0x27] @ rs @ [CHR 0x27]
                     @ ''. Expected '' @ [CHR 0x27] @ ''SxEy>SxEy'' @ [CHR 0x27]) ex)"
proof (cases "count_list rs CHR ''>'' = 1")
  case False
  then have "length (str_split CHR ''>'' rs) \<noteq> 2"
    by (simp add: str_split_length)
  from parse_range_not_two[OF this] show ?thesis
    by (simp add: range_message_def)
next
  case True
  with assms obtain l r where rs: "rs = l @ ''>'' @ r"
    and bad: "side_malformed max_digits l \<or> side_malformed max_digits r"
    by blast
  have "CHR ''>'' \<notin> set l \<and> CHR ''>'' \<notin> set r"
    by (rule count_one_sides) (use True rs in simp)
  then have split: "str_split CHR ''>'' rs = [l, r]"
    unfolding rs by (intro str_split_two) blast+
  show ?thesis
  proof (cases "se_to_tuple max_digits l")
    case (Inl ex)
    then show ?thesis
      by (simp add: parse_range_two[OF split] range_message_def)
  next
    case (Inr a)
    then have "\<not> side_malformed max_digits l"
      using se_to_tuple_malformed[of max_digits l] by auto
    then obtain ex where "se_to_tuple max_digits r = Inl ex"
      using bad se_to_tuple_malformed[of max_digits r] by blast
    then show ?thesis
      using Inr by (simp add: parse_range_two[OF split] range_message_def split: prod.splits)
  qed
qed

text \<open>The malformed marker of the specification, \<open>S2-E1>S3E1\<close>.\<close>

theorem parse_range_rejects_witness:
  "side_malformed 4300 ''S2-E1''
   \<and> (\<exists>ex. parse_range 4300 ''S2-E1>S3E1'' =
           Inl (ArgumentTypeError
                  (''Invalid range format: '' @ [CHR 0x27] @ ''S2-E1>S3E1'' @ [CHR 0x27]
                     @ ''. Expected '' @ [CHR 0x27] @ ''SxEy>SxEy'' @ [CHR 0x27]) ex))"
proof -
  have m: "side_malformed 4300 ''S2-E1''"
    by code_simp
  have "''S2-E1>S3E1'' = ''S2-E1'' @ ''>'' @ ''S3E1''"
    by simp
  with m have h: "count_list ''S2-E1>S3E1'' CHR ''>'' \<noteq> 1
     \<or> (\<exists>l r. ''S2-E1>S3E1'' = l @ ''>'' @ r \<and> (side_malformed 4300 l \<or> side_malformed 4300 r))"
    by blast
  show ?thesis
    using parse_range_rejects[OF h] m by blast
qed

text \<open>
  C7 as stated fails: the sides of \<open>s2e1> S3E1\<close> begin with \<open>s\<close> and with a blank, not
  with \<open>S\<close>, and the expression is accepted.
\<close>

theorem parse_range_marker_counterexample:
  "take 1 ''s2e1'' \<noteq> ''S'' \<and> take 1 '' S3E1'' \<noteq> ''S''
   \<and> parse_range 4300 ''s2e1> S3E1'' = Inr (2, 1, 3, 1)"
  by code_simp

text \<open>
  C3, as amended. For parsed endpoints \<open>(s1, e1)\<close> and \<open>(s2, e2)\<close>, \<open>parse_range\<close> fails
  with the order error exactly when the end is before the start in the lexicographic order
  of (season, episode), and returns the quadruple unchanged otherwise. For episode numbers
  from 0 to 99 this is the comparison of the linearised positions.
\<close>

theorem parse_range_order:
  assumes "str_split CHR ''>'' rs = [l, r]"
    and "se_to_tuple max_digits l = Inr (s1, e1)"
    and "se_to_tuple max_digits r = Inr (s2, e2)"
  shows "parse_range max_digits rs =
           (if s2 < s1 \<or> (s2 = s1 \<and> e2 < e1)
            then Inl (ArgumentTypeError (range_message rs) OrderError)
            else Inr (s1, e1, s2, e2))
         \<and> (0 \<le> e1 \<and> e1 < 100 \<and> 0 \<le> e2 \<and> e2 < 100 \<longrightarrow>
              (s2 < s1 \<or> (s2 = s1 \<and> e2 < e1)) = (s2 * 100 + e2 < s1 * 100 + e1))"
proof
  show "parse_range max_digits rs =
           (if s2 < s1 \<or> (s2 = s1 \<and> e2 < e1)
            then Inl (ArgumentTypeError (range_message rs) OrderError)
            else Inr (s1, e1, s2, e2))"
    by (simp add: parse_range_two[OF assms(1)] assms(2,3))
  show "0 \<le> e1 \<and> e1 < 100 \<and> 0 \<le> e2 \<and> e2 < 100 \<longrightarrow>
          (s2 < s1 \<or> (s2 = s1 \<and> e2 < e1)) = (s2 * 100 + e2 < s1 * 100 + e1)"
    by arith
qed

text \<open>The descending range of the specification, \<open>S6E1>S3E1\<close>.\<close>

theorem parse_range_order_witness:
  "str_split CHR ''>'' ''S6E1>S3E1'' = [''S6E1'', ''S3E1'']
   \<and> se_to_tuple 4300 ''S6E1'' = Inr (6, 1)
   \<and> se_to_tuple 4300 ''S3E1'' = Inr (3, 1)
   \<and> parse_range 4300 ''S6E1>S3E1'' = Inl (ArgumentTypeError (range_message ''S6E1>S3E1'') OrderError)
   \<and> ((3::int) * 100 + 1 < 6 * 100 + 1)"
proof -
  have h1: "str_split CHR ''>'' ''S6E1>S3E1'' = [''S6E1'', ''S3E1'']" by code_simp
  have h2: "se_to_tuple 4300 ''S6E1'' = Inr (6, 1)" by code_simp
  have h3: "se_to_tuple 4300 ''S3E1'' = Inr (3, 1)" by code_simp
  show ?thesis
    using parse_range_order[OF h1 h2 h3] h1 h2 h3 by simp
qed

text \<open>
  C3 as stated fails: the end of \<open>S1E250>S2E0\<close> has the smaller linearised position (200
  against 350), and the expression is accepted.
\<close>

theorem parse_range_order_counterexample:
  "parse_range 4300 ''S1E250>S2E0'' = Inr (1, 250, 2, 0) \<and> (2::int) * 100 + 0 < 1 * 100 + 250"
  by code_simp

section \<open>Properties of the record normaliser\<close>

lemma int_of_str_empty: "int_of_str max_digits [] = None"
  by (simp add: int_of_str_def c_strip_def int_text_def)

lemma cell_reads_int:
  assumes "cell_reads max_digits (r k) i"
  shows "py_int max_digits (py_or (row_get r k) (PInt 0)) = Inr i"
proof -
  consider "r k = None \<and> i = 0" | "r k = Some PNone \<and> i = 0" | "r k = Some (PStr '''') \<and> i = 0"
    | "r k = Some (PInt i)" | s where "r k = Some (PStr s)" "int_of_str max_digits s = Some i"
    using assms unfolding cell_reads_def by blast
  then show ?thesis
  proof cases
    case 5
    then have "s \<noteq> []" using int_of_str_empty by auto
    with 5 show ?thesis by (simp add: row_get_def py_or_def)
  qed (simp_all add: row_get_def py_or_def)
qed

text \<open>
  C1, as amended. For every input row whose season and episode cells are each absent, empty,
  an integer, or a text that \<open>int\<close> reads as an integer, \<open>normalize_row\<close> returns a record, and
  its season and episode are 0 for an absent or empty cell and the integer read otherwise (so
  they are negative when the text has a minus sign). A cell whose text \<open>int\<close> refuses is left
  out of the statement.
\<close>

theorem normalize_row_season_episode:
  assumes "cell_reads max_digits (r ''season'') i" and "cell_reads max_digits (r ''episode'') j"
  shows "\<exists>ep. normalize_row max_digits float_of_str float_of_int r = Inr ep
              \<and> season ep = i \<and> episode ep = j"
proof -
  have s: "py_int max_digits (py_or (row_get r ''season'') (PInt 0)) = Inr i"
    using assms(1) by (rule cell_reads_int[of max_digits r "''season''" i])
  have e: "py_int max_digits (py_or (row_get r ''episode'') (PInt 0)) = Inr j"
    using assms(2) by (rule cell_reads_int[of max_digits r "''episode''" j])
  show ?thesis
    unfolding normalize_row_def s e by simp
qed

text \<open>A row with season \<open>3\<close>, a title and no episode cell.\<close>

theorem normalize_row_season_episode_witness:
  "cell_reads 4300 ((Map.empty(''season'' \<mapsto> PStr ''3'', ''title'' \<mapsto> PStr ''Wrath'')) ''season'') 3
   \<and> cell_reads 4300 ((Map.empty(''season'' \<mapsto> PStr ''3'', ''title'' \<mapsto> PStr ''Wrath'')) ''episode'') 0
   \<and> (\<exists>ep. normalize_row 4300 (\<lambda>s. None) (\<lambda>i. None)
              (Map.empty(''season'' \<mapsto> PStr ''3'', ''title'' \<mapsto> PStr ''Wrath'')) = Inr ep
            \<and> season ep = 3 \<and> episode ep = 0)"
proof -
  have e: "int_of_str 4300 ''3'' = Some 3" by code_simp
  have h1: "cell_reads 4300 ((Map.empty(''season'' \<mapsto> PStr ''3'', ''title'' \<mapsto> PStr ''Wrath'')) ''season'') 3"
    by (simp add: cell_reads_def e)
  have h2: "cell_reads 4300 ((Map.empty(''season'' \<mapsto> PStr ''3'', ''title'' \<mapsto> PStr ''Wrath'')) ''episode'') 0"
    by (simp add: cell_reads_def)
  show ?thesis
    using normalize_row_season_episode[OF h1 h2, of "\<lambda>s. None" "\<lambda>i. None"] h1 h2 by blast
qed

text \<open>
  C1 as stated fails: the season text \<open>-3\<close> gives the season -3, and the season text
  \<open>abc\<close> makes \<open>int\<close> raise.
\<close>

theorem normalize_row_counterexample:
  "map_sum id season
     (normalize_row 4300 (\<lambda>s. None) (\<lambda>i. None) (Map.empty(''season'' \<mapsto> PStr ''-3''))) = Inr (- 3)
   \<and> normalize_row 4300 (\<lambda>s. None) (\<lambda>i. None) (Map.empty(''season'' \<mapsto> PStr ''abc''))
       = Inl (LiteralError ''abc'')"
  by code_simp

section \<open>Properties of the ranker\<close>

lemma flt_ord_neg_eq:
  "a \<noteq> NaN \<Longrightarrow> b \<noteq> NaN \<Longrightarrow> flt_ord (flt_neg a) = flt_ord (flt_neg b) \<longleftrightarrow> a = b"
  by (cases a; cases b) simp_all

lemma flt_ord_neg_less:
  "a \<noteq> NaN \<Longrightarrow> b \<noteq> NaN \<Longrightarrow> flt_ord (flt_neg a) < flt_ord (flt_neg b) \<longleftrightarrow> flt_lt b a"
  by (cases a; cases b) (simp_all add: flt_lt_def less_prod_def)

lemma pair_le_lex:
  "((a::'a::linorder), (s::'b::linorder)) \<le> (b, t) \<longleftrightarrow> a < b \<or> (a = b \<and> s \<le> t)"
  by (auto simp: less_eq_prod_def)

lemma rating_or_zero_known: "imdb_rating e = Some x \<Longrightarrow> rating_or_zero e = x"
  by (simp add: rating_or_zero_def)

lemma rating_or_zero_unknown: "imdb_rating e = None \<Longrightarrow> rating_or_zero e = Finite 0"
  by (simp add: rating_or_zero_def)

lemma rating_or_zero_nan: "rating_or_zero e = NaN \<longleftrightarrow> imdb_rating e = Some NaN"
  by (cases "imdb_rating e") (auto simp: rating_or_zero_def)

lemma rank_key_eq:
  assumes "rating_or_zero a \<noteq> NaN" "rating_or_zero b \<noteq> NaN"
  shows "rank_key a = rank_key b
           \<longleftrightarrow> rating_or_zero a = rating_or_zero b \<and> title a = title b"
  unfolding rank_key_def using flt_ord_neg_eq[OF assms] by simp

lemma rank_key_le:
  assumes "rating_or_zero a \<noteq> NaN" "rating_or_zero b \<noteq> NaN"
  shows "rank_key a \<le> rank_key b \<longleftrightarrow> ranks_before_zero a b"
proof -
  let ?ka = "flt_ord (flt_neg (rating_or_zero a))" and ?kb = "flt_ord (flt_neg (rating_or_zero b))"
  have "rank_key a \<le> rank_key b \<longleftrightarrow> ?ka < ?kb \<or> (?ka = ?kb \<and> title a \<le> title b)"
    unfolding rank_key_def by (rule pair_le_lex)
  also have "\<dots> \<longleftrightarrow> ranks_before_zero a b"
    unfolding ranks_before_zero_def flt_ord_neg_less[OF assms] flt_ord_neg_eq[OF assms] ..
  finally show ?thesis .
qed

lemma ranks_before_known:
  assumes "imdb_rating a = Some x" "imdb_rating b = Some y"
  shows "ranks_before a b \<longleftrightarrow> ranks_before_zero a b"
  unfolding ranks_before_def ranks_before_zero_def
    rating_or_zero_known[OF assms(1)] rating_or_zero_known[OF assms(2)] assms
  by auto

lemma slice_to_nonneg: "0 \<le> n \<Longrightarrow> slice_to n xs = take (nat n) xs"
  by (simp add: slice_to_def)

lemma slice_to_take: "\<exists>k. slice_to n xs = take k xs"
  by (auto simp: slice_to_def)

lemma slice_to_map: "slice_to n (map f xs) = map f (slice_to n xs)"
  by (simp add: slice_to_def take_map)

text \<open>Without a NaN rating the ranker is the stable sort by \<open>rank_key\<close>, then the slice.\<close>

lemma rank_and_select_sort:
  assumes "\<forall>e\<in>set c. imdb_rating e \<noteq> Some NaN"
  shows "rank_and_select sorted_nan c n = slice_to n (sort_key rank_key c)"
proof -
  have "\<not> list_ex (\<lambda>e. imdb_rating e = Some NaN) c"
    using assms by (simp add: list_ex_iff)
  then show ?thesis by (simp add: rank_and_select_def)
qed

text \<open>
  The sorted list is a permutation of the candidates in the order of the specification, and
  candidates with the same rating and title stand in it as they stood in the input.
\<close>

lemma sorted_candidates:
  assumes nonan: "\<forall>e\<in>set c. imdb_rating e \<noteq> Some NaN"
  shows "mset (sort_key rank_key c) = mset c"
    and "sorted_wrt ranks_before_zero (sort_key rank_key c)"
    and "filter (\<lambda>e. (rating_or_zero e, title e) = k) (sort_key rank_key c)
           = filter (\<lambda>e. (rating_or_zero e, title e) = k) c"
proof -
  have nn: "rating_or_zero e \<noteq> NaN" if e: "e \<in> set c" for e
    using nonan e by (simp add: rating_or_zero_nan)
  show "mset (sort_key rank_key c) = mset c" by simp
  have "sorted_wrt (\<lambda>a b. rank_key a \<le> rank_key b) (sort_key rank_key c)"
    using sorted_sort_key[of rank_key c] by (simp only: sorted_map)
  then show "sorted_wrt ranks_before_zero (sort_key rank_key c)"
  proof (rule sorted_wrt_mono_rel[rotated])
    fix a b assume "a \<in> set (sort_key rank_key c)" "b \<in> set (sort_key rank_key c)"
      and "rank_key a \<le> rank_key b"
    then show "ranks_before_zero a b" using rank_key_le[of a b] nn by simp
  qed
  obtain x t where k: "k = (x, t)" by (cases k)
  show "filter (\<lambda>e. (rating_or_zero e, title e) = k) (sort_key rank_key c)
           = filter (\<lambda>e. (rating_or_zero e, title e) = k) c"
  proof (cases "x = NaN")
    case True
    have "filter (\<lambda>e. (rating_or_zero e, title e) = k) xs = []" if "set xs \<subseteq> set c" for xs
      using that nn True by (auto simp: k filter_empty_conv)
    then show ?thesis by simp
  next
    case False
    let ?k = "(flt_ord (flt_neg x), t)"
    have same: "((rating_or_zero e, title e) = k) = (rank_key e = ?k)" if e: "e \<in> set c" for e
      unfolding k rank_key_def using flt_ord_neg_eq[OF nn[OF e] False] by auto
    have "filter (\<lambda>e. (rating_or_zero e, title e) = k) (sort_key rank_key c)
            = filter (\<lambda>e. rank_key e = ?k) (sort_key rank_key c)"
      by (rule filter_cong) (simp_all add: same)
    also have "\<dots> = filter (\<lambda>e. rank_key e = ?k) c"
      by (rule sort_key_stable)
    also have "\<dots> = filter (\<lambda>e. (rating_or_zero e, title e) = k) c"
      by (rule filter_cong) (simp_all add: same)
    finally show ?thesis .
  qed
qed

lemma keys_of_sorted: "map rank_key (sort_key rank_key c) = sort (map rank_key c)"
  by (rule properties_for_sort[symmetric]) simp_all

lemma keys_permutation:
  assumes "mset c' = mset c"
  shows "map rank_key (sort_key rank_key c') = map rank_key (sort_key rank_key c)"
proof -
  have "mset (map rank_key c') = mset (map rank_key c)"
    using assms by (metis mset_map)
  then have "sort (map rank_key c') = sort (map rank_key c)"
    by (intro properties_for_sort) simp_all
  then show ?thesis by (simp only: keys_of_sorted)
qed

text \<open>For known ratings that are not NaN the key determines rating and title.\<close>

lemma rating_title_of_key:
  assumes "\<forall>e\<in>set xs. \<exists>x. imdb_rating e = Some x \<and> x \<noteq> NaN"
    and "\<forall>e\<in>set ys. \<exists>x. imdb_rating e = Some x \<and> x \<noteq> NaN"
    and "map rank_key xs = map rank_key ys"
  shows "map (\<lambda>e. (imdb_rating e, title e)) xs = map (\<lambda>e. (imdb_rating e, title e)) ys"
  using assms
proof (induction xs arbitrary: ys)
  case Nil
  then show ?case by simp
next
  case (Cons a as)
  then obtain b bs where ys: "ys = b # bs" by (cases ys) auto
  from Cons.prems(1) obtain x where x: "imdb_rating a = Some x" "x \<noteq> NaN" by auto
  from Cons.prems(2) ys obtain y where y: "imdb_rating b = Some y" "y \<noteq> NaN" by auto
  have k: "rank_key a = rank_key b" using Cons.prems(3) ys by simp
  have "rating_or_zero a \<noteq> NaN" "rating_or_zero b \<noteq> NaN"
    using x y by (simp_all add: rating_or_zero_known)
  from rank_key_eq[OF this] k have "imdb_rating a = imdb_rating b \<and> title a = title b"
    using x y by (simp add: rating_or_zero_known)
  moreover have "map (\<lambda>e. (imdb_rating e, title e)) as = map (\<lambda>e. (imdb_rating e, title e)) bs"
    using Cons.IH[of bs] Cons.prems ys by simp
  ultimately show ?case by (simp add: ys)
qed

lemma rank_key_inj:
  assumes known: "\<forall>e\<in>set c. \<exists>x. imdb_rating e = Some x \<and> x \<noteq> NaN"
    and inj: "inj_on (\<lambda>e. (imdb_rating e, title e)) (set c)"
  shows "inj_on rank_key (set c)"
proof (rule inj_onI)
  fix a b assume a: "a \<in> set c" and b: "b \<in> set c" and k: "rank_key a = rank_key b"
  from known a obtain x where x: "imdb_rating a = Some x" "x \<noteq> NaN" by auto
  from known b obtain y where y: "imdb_rating b = Some y" "y \<noteq> NaN" by auto
  have "rating_or_zero a \<noteq> NaN" "rating_or_zero b \<noteq> NaN"
    using x y by (simp_all add: rating_or_zero_known)
  from rank_key_eq[OF this] k have "(imdb_rating a, title a) = (imdb_rating b, title b)"
    using x y by (simp add: rating_or_zero_known)
  with inj a b show "a = b" by (auto dest: inj_onD)
qed

text \<open>
  C5, as amended. For every candidate list in which every rating is known and none is NaN,
  and every count \<open>n \<ge> 1\<close>, \<open>rank_and_select\<close> returns the first \<open>n\<close> elements of the
  stably sorted list: a permutation of the candidates sorted by rating descending, equal
  ratings by title ascending, in which candidates of the same rating and title keep their
  input order. The cut comes after the sort, and with at most \<open>n\<close> candidates all of them
  are returned. The sequence of (rating, title) pairs of the output does not depend on the
  order of the input; the output itself does not when no two candidates share both rating
  and title.
\<close>

theorem rank_and_select_top:
  assumes known: "\<forall>e\<in>set c. \<exists>x. imdb_rating e = Some x \<and> x \<noteq> NaN" and n: "1 \<le> n"
  shows "(\<exists>full. mset full = mset c \<and> sorted_wrt ranks_before full
                \<and> (\<forall>x t. filter (\<lambda>e. imdb_rating e = Some x \<and> title e = t) full
                           = filter (\<lambda>e. imdb_rating e = Some x \<and> title e = t) c)
                \<and> rank_and_select sorted_nan c n = take (nat n) full)
       \<and> (int (length c) \<le> n \<longrightarrow>
            length (rank_and_select sorted_nan c n) = length c
            \<and> mset (rank_and_select sorted_nan c n) = mset c)
       \<and> (\<forall>c'. mset c' = mset c \<longrightarrow>
            map (\<lambda>e. (imdb_rating e, title e)) (rank_and_select sorted_nan c' n)
              = map (\<lambda>e. (imdb_rating e, title e)) (rank_and_select sorted_nan c n))
       \<and> (\<forall>c'. mset c' = mset c \<and> inj_on (\<lambda>e. (imdb_rating e, title e)) (set c) \<longrightarrow>
            rank_and_select sorted_nan c' n = rank_and_select sorted_nan c n)"
proof (intro conjI allI impI)
  have n0: "0 \<le> n" using n by simp
  have nonan: "\<forall>e\<in>set c. imdb_rating e \<noteq> Some NaN" using known by auto
  have rs: "rank_and_select sorted_nan xs n = take (nat n) (sort_key rank_key xs)"
    if "set xs = set c" for xs
  proof -
    have "\<forall>e\<in>set xs. imdb_rating e \<noteq> Some NaN" using nonan that by simp
    then show ?thesis by (simp add: rank_and_select_sort slice_to_nonneg[OF n0])
  qed
  note rsc = rs[OF refl]
  let ?full = "sort_key rank_key c"
  have sorted: "sorted_wrt ranks_before ?full"
  proof (rule sorted_wrt_mono_rel[OF _ sorted_candidates(2)[OF nonan]])
    fix a b assume a: "a \<in> set ?full" and b: "b \<in> set ?full" and r: "ranks_before_zero a b"
    from known a obtain x where x: "imdb_rating a = Some x" by auto
    from known b obtain y where y: "imdb_rating b = Some y" by auto
    show "ranks_before a b" using r ranks_before_known[OF x y] by simp
  qed
  have stable: "filter (\<lambda>e. imdb_rating e = Some x \<and> title e = t) ?full
                  = filter (\<lambda>e. imdb_rating e = Some x \<and> title e = t) c" for x t
  proof -
    have same: "(imdb_rating e = Some x \<and> title e = t) = ((rating_or_zero e, title e) = (x, t))"
      if e: "e \<in> set c" for e
    proof -
      from known e obtain y where y: "imdb_rating e = Some y" by auto
      show ?thesis unfolding rating_or_zero_known[OF y] y by simp
    qed
    have "filter (\<lambda>e. imdb_rating e = Some x \<and> title e = t) ?full
            = filter (\<lambda>e. (rating_or_zero e, title e) = (x, t)) ?full"
      by (rule filter_cong) (simp_all add: same)
    also have "\<dots> = filter (\<lambda>e. (rating_or_zero e, title e) = (x, t)) c"
      by (rule sorted_candidates(3)[OF nonan])
    also have "\<dots> = filter (\<lambda>e. imdb_rating e = Some x \<and> title e = t) c"
      by (rule filter_cong) (simp_all add: same)
    finally show ?thesis .
  qed
  show "\<exists>full. mset full = mset c \<and> sorted_wrt ranks_before full
                \<and> (\<forall>x t. filter (\<lambda>e. imdb_rating e = Some x \<and> title e = t) full
                           = filter (\<lambda>e. imdb_rating e = Some x \<and> title e = t) c)
                \<and> rank_and_select sorted_nan c n = take (nat n) full"
    using sorted stable rsc by (intro exI[of _ ?full]) simp
  {
    assume "int (length c) \<le> n"
    then have "rank_and_select sorted_nan c n = sort_key rank_key c" by (simp add: rsc)
    then show "length (rank_and_select sorted_nan c n) = length c"
      and "mset (rank_and_select sorted_nan c n) = mset c" by simp_all
  }
  {
    fix c' assume m: "mset c' = mset c"
    then have s: "set c' = set c" by (rule mset_eq_setD)
    then have known': "\<forall>e\<in>set c'. \<exists>x. imdb_rating e = Some x \<and> x \<noteq> NaN" using known by simp
    have k: "\<forall>e\<in>set (take (nat n) (sort_key rank_key xs)). \<exists>x. imdb_rating e = Some x \<and> x \<noteq> NaN"
      if "\<forall>e\<in>set xs. \<exists>x. imdb_rating e = Some x \<and> x \<noteq> NaN" for xs
      using that set_take_subset[of "nat n" "sort_key rank_key xs"] by auto
    show "map (\<lambda>e. (imdb_rating e, title e)) (rank_and_select sorted_nan c' n)
            = map (\<lambda>e. (imdb_rating e, title e)) (rank_and_select sorted_nan c n)"
      unfolding rs[OF s] rsc
    proof (rule rating_title_of_key[OF k[OF known'] k[OF known]])
      show "map rank_key (take (nat n) (sort_key rank_key c'))
              = map rank_key (take (nat n) (sort_key rank_key c))"
        by (simp only: take_map[symmetric] keys_permutation[OF m])
    qed
  }
  {
    fix c' assume "mset c' = mset c \<and> inj_on (\<lambda>e. (imdb_rating e, title e)) (set c)"
    then have m: "mset c' = mset c" and inj: "inj_on (\<lambda>e. (imdb_rating e, title e)) (set c)"
      by simp_all
    have s: "set c' = set c" using m by (rule mset_eq_setD)
    then have "inj_on rank_key (set c')" using rank_key_inj[OF known inj] by simp
    then have "sort_key rank_key c' = sort_key rank_key c"
      using m by (intro sort_key_inj_key_eq) simp_all
    then show "rank_and_select sorted_nan c' n = rank_and_select sorted_nan c n"
      by (simp add: rs[OF s] rsc)
  }
qed

text \<open>
  Three candidates with different titles and the count 5: all three are returned, and the
  reversed list gives the same output.
\<close>

theorem rank_and_select_top_witness:
  "list_all (\<lambda>e. imdb_rating e \<noteq> None \<and> imdb_rating e \<noteq> Some NaN)
       [\<lparr> season = 2, episode = 21, title = ''Scourge'', air_date = ''2001-01-01'',
          imdb_id = ''tt0000001'', imdb_rating = Some (Finite 8.5),
          features_george_huang = True, heavy_finn_munch = False, heavy_trial = False,
          one_sentence_plot = ''p'', one_sentence_reason = ''r'' \<rparr>,
        \<lparr> season = 3, episode = 1, title = ''Repression'', air_date = ''2001-01-01'',
          imdb_id = ''tt0000001'', imdb_rating = Some (Finite 8.2),
          features_george_huang = True, heavy_finn_munch = False, heavy_trial = False,
          one_sentence_plot = ''p'', one_sentence_reason = ''r'' \<rparr>,
        \<lparr> season = 3, episode = 2, title = ''Wrath'', air_date = ''2001-01-01'',
          imdb_id = ''tt0000001'', imdb_rating = Some (Finite 8.3),
          features_george_huang = True, heavy_finn_munch = False, heavy_trial = False,
          one_sentence_plot = ''p'', one_sentence_reason = ''r'' \<rparr>]
   \<and> distinct (map (\<lambda>e. (imdb_rating e, title e))
       [\<lparr> season = 2, episode = 21, title = ''Scourge'', air_date = ''2001-01-01'',
          imdb_id = ''tt0000001'', imdb_rating = Some (Finite 8.5),
          features_george_huang = True, heavy_finn_munch = False, heavy_trial = False,
          one_sentence_plot = ''p'', one_sentence_reason = ''r'' \<rparr>,
        \<lparr> season = 3, episode = 1, title = ''Repression'', air_date = ''2001-01-01'',
          imdb_id = ''tt0000001'', imdb_rating = Some (Finite 8.2),
          features_george_huang = True, heavy_finn_munch = False, heavy_trial = False,
          one_sentence_plot = ''p'', one_sentence_reason = ''r'' \<rparr>,
        \<lparr> season = 3, episode = 2, title = ''Wrath'', air_date = ''2001-01-01'',
          imdb_id = ''tt0000001'', imdb_rating = Some (Finite 8.3),
          features_george_huang = True, heavy_finn_munch = False, heavy_trial = False,
          one_sentence_plot = ''p'', one_sentence_reason = ''r'' \<rparr>])
   \<and> length (rank_and_select (\<lambda>xs. xs)
       [\<lparr> season = 2, episode = 21, title = ''Scourge'', air_date = ''2001-01-01'',
          imdb_id = ''tt0000001'', imdb_rating = Some (Finite 8.5),
          features_george_huang = True, heavy_finn_munch = False, heavy_trial = False,
          one_sentence_plot = ''p'', one_sentence_reason = ''r'' \<rparr>,
        \<lparr> season = 3, episode = 1, title = ''Repression'', air_date = ''2001-01-01'',
          imdb_id = ''tt0000001'', imdb_rating = Some (Finite 8.2),
          features_george_huang = True, heavy_finn_munch = False, heavy_trial = False,
          one_sentence_plot = ''p'', one_sentence_reason = ''r'' \<rparr>,
        \<lparr> season = 3, episode = 2, title = ''Wrath'', air_date = ''2001-01-01'',
          imdb_id = ''tt0000001'', imdb_rating = Some (Finite 8.3),
          features_george_huang = True, heavy_finn_munch = False, heavy_trial = False,
          one_sentence_plot = ''p'', one_sentence_reason = ''r'' \<rparr>] 5) = 3
   \<and> rank_and_select (\<lambda>xs. xs) (rev
       [\<lparr> season = 2, episode = 21, title = ''Scourge'', air_date = ''2001-01-01'',
          imdb_id = ''tt0000001'', imdb_rating = Some (Finite 8.5),
          features_george_huang = True, heavy_finn_munch = False, heavy_trial = False,
          one_sentence_plot = ''p'', one_sentence_reason = ''r'' \<rparr>,
        \<lparr> season = 3, episode = 1, title = ''Repression'', air_date = ''2001-01-01'',
          imdb_id = ''tt0000001'', imdb_rating = Some (Finite 8.2),
          features_george_huang = True, heavy_finn_munch = False, heavy_trial = False,
          one_sentence_plot = ''p'', one_sentence_reason = ''r'' \<rparr>,
        \<lparr> season = 3, episode = 2, title = ''Wrath'', air_date = ''2001-01-01'',
          imdb_id = ''tt0000001'', imdb_rating = Some (Finite 8.3),
          features_george_huang = True, heavy_finn_munch = False, heavy_trial = False,
          one_sentence_plot = ''p'', one_sentence_reason = ''r'' \<rparr>]) 5
     = rank_and_select (\<lambda>xs. xs)
       [\<lparr> season = 2, episode = 21, title = ''Scourge'', air_date = ''2001-01-01'',
          imdb_id = ''tt0000001'', imdb_rating = Some (Finite 8.5),
          features_george_huang = True, heavy_finn_munch = False, heavy_trial = False,
          one_sentence_plot = ''p'', one_sentence_reason = ''r'' \<rparr>,
        \<lparr> season = 3, episode = 1, title = ''Repression'', air_date = ''2001-01-01'',
          imdb_id = ''tt0000001'', imdb_rating = Some (Finite 8.2),
          features_george_huang = True, heavy_finn_munch = False, heavy_trial = False,
          one_sentence_plot = ''p'', one_sentence_reason = ''r'' \<rparr>,
        \<lparr> season = 3, episode = 2, title = ''Wrath'', air_date = ''2001-01-01'',
          imdb_id = ''tt0000001'', imdb_rating = Some (Finite 8.3),
          features_george_huang = True, heavy_finn_munch = False, heavy_trial = False,
          one_sentence_plot = ''p'', one_sentence_reason = ''r'' \<rparr>] 5"
proof -
  define C where "C = [\<lparr> season = 2, episode = 21, title = ''Scourge'', air_date = ''2001-01-01'',
          imdb_id = ''tt0000001'', imdb_rating = Some (Finite 8.5),
          features_george_huang = True, heavy_finn_munch = False, heavy_trial = False,
          one_sentence_plot = ''p'', one_sentence_reason = ''r'' \<rparr>,
        \<lparr> season = 3, episode = 1, title = ''Repression'', air_date = ''2001-01-01'',
          imdb_id = ''tt0000001'', imdb_rating = Some (Finite 8.2),
          features_george_huang = True, heavy_finn_munch = False, heavy_trial = False,
          one_sentence_plot = ''p'', one_sentence_reason = ''r'' \<rparr>,
        \<lparr> season = 3, episode = 2, title = ''Wrath'', air_date = ''2001-01-01'',
          imdb_id = ''tt0000001'', imdb_rating = Some (Finite 8.3),
          features_george_huang = True, heavy_finn_munch = False, heavy_trial = False,
          one_sentence_plot = ''p'', one_sentence_reason = ''r'' \<rparr>]"
  have h: "\<forall>e \<in> set C. \<exists>x. imdb_rating e = Some x \<and> x \<noteq> NaN"
    unfolding C_def by (simp del: not_None_eq)
  have n: "(1::int) \<le> 5" by simp
  have len: "int (length C) \<le> 5" unfolding C_def by simp
  have d: "distinct (map (\<lambda>e. (imdb_rating e, title e)) C)"
    unfolding C_def by simp
  then have inj: "inj_on (\<lambda>e. (imdb_rating e, title e)) (set C)"
    by (simp only: distinct_map)
  have m: "mset (rev C) = mset C" by simp
  note top = rank_and_select_top[OF h n, of "\<lambda>xs. xs"]
  have "length (rank_and_select (\<lambda>xs. xs) C 5) = length C"
    using top[THEN conjunct2, THEN conjunct1] len by blast
  moreover have "length C = 3" unfolding C_def by simp
  moreover have "list_all (\<lambda>e. imdb_rating e \<noteq> None \<and> imdb_rating e \<noteq> Some NaN) C"
    unfolding C_def by (simp del: not_None_eq)
  moreover have "rank_and_select (\<lambda>xs. xs) (rev C) 5 = rank_and_select (\<lambda>xs. xs) C 5"
    using top[THEN conjunct2, THEN conjunct2, THEN conjunct2] m inj by blast
  ultimately have "list_all (\<lambda>e. imdb_rating e \<noteq> None \<and> imdb_rating e \<noteq> Some NaN) C
      \<and> distinct (map (\<lambda>e. (imdb_rating e, title e)) C)
      \<and> length (rank_and_select (\<lambda>xs. xs) C 5) = 3
      \<and> rank_and_select (\<lambda>xs. xs) (rev C) 5 = rank_and_select (\<lambda>xs. xs) C 5"
    using d by simp
  then show ?thesis unfolding C_def .
qed

text \<open>
  C5 as stated fails: two candidates with the same rating and title (seasons 1 and 2) come
  out in the order they went in, so the output depends on the order of the input.
\<close>

theorem rank_and_select_order_counterexample:
  "rank_and_select (\<lambda>xs. xs) [\<lparr> season = 1, episode = 1, title = ''Twin'', air_date = ''2001-01-01'',
          imdb_id = ''tt0000001'', imdb_rating = Some (Finite 8.5),
          features_george_huang = True, heavy_finn_munch = False, heavy_trial = False,
          one_sentence_plot = ''p'', one_sentence_reason = ''r'' \<rparr>,
        \<lparr> season = 2, episode = 1, title = ''Twin'', air_date = ''2001-01-01'',
          imdb_id = ''tt0000001'', imdb_rating = Some (Finite 8.5),
          features_george_huang = True, heavy_finn_munch = False, heavy_trial = False,
          one_sentence_plot = ''p'', one_sentence_reason = ''r'' \<rparr>] 2
     = [\<lparr> season = 1, episode = 1, title = ''Twin'', air_date = ''2001-01-01'',
          imdb_id = ''tt0000001'', imdb_rating = Some (Finite 8.5),
          features_george_huang = True, heavy_finn_munch = False, heavy_trial = False,
          one_sentence_plot = ''p'', one_sentence_reason = ''r'' \<rparr>,
        \<lparr> season = 2, episode = 1, title = ''Twin'', air_date = ''2001-01-01'',
          imdb_id = ''tt0000001'', imdb_rating = Some (Finite 8.5),
          features_george_huang = True, heavy_finn_munch = False, heavy_trial = False,
          one_sentence_plot = ''p'', one_sentence_reason = ''r'' \<rparr>]
   \<and> rank_and_select (\<lambda>xs. xs) [\<lparr> season = 2, episode = 1, title = ''Twin'', air_date = ''2001-01-01'',
          imdb_id = ''tt0000001'', imdb_rating = Some (Finite 8.5),
          features_george_huang = True, heavy_finn_munch = False, heavy_trial = False,
          one_sentence_plot = ''p'', one_sentence_reason = ''r'' \<rparr>,
        \<lparr> season = 1, episode = 1, title = ''Twin'', air_date = ''2001-01-01'',
          imdb_id = ''tt0000001'', imdb_rating = Some (Finite 8.5),
          features_george_huang = True, heavy_finn_munch = False, heavy_trial = False,
          one_sentence_plot = ''p'', one_sentence_reason = ''r'' \<rparr>] 2
     = [\<lparr> season = 2, episode = 1, title = ''Twin'', air_date = ''2001-01-01'',
          imdb_id = ''tt0000001'', imdb_rating = Some (Finite 8.5),
          features_george_huang = True, heavy_finn_munch = False, heavy_trial = False,
          one_sentence_plot = ''p'', one_sentence_reason = ''r'' \<rparr>,
        \<lparr> season = 1, episode = 1, title = ''Twin'', air_date = ''2001-01-01'',
          imdb_id = ''tt0000001'', imdb_rating = Some (Finite 8.5),
          features_george_huang = True, heavy_finn_munch = False, heavy_trial = False,
          one_sentence_plot = ''p'', one_sentence_reason = ''r'' \<rparr>]"
proof -
  define x where "x = \<lparr> season = 1, episode = 1, title = ''Twin'', air_date = ''2001-01-01'',
          imdb_id = ''tt0000001'', imdb_rating = Some (Finite 8.5),
          features_george_huang = True, heavy_finn_munch = False, heavy_trial = False,
          one_sentence_plot = ''p'', one_sentence_reason = ''r'' \<rparr>"
  define y where "y = \<lparr> season = 2, episode = 1, title = ''Twin'', air_date = ''2001-01-01'',
          imdb_id = ''tt0000001'', imdb_rating = Some (Finite 8.5),
          features_george_huang = True, heavy_finn_munch = False, heavy_trial = False,
          one_sentence_plot = ''p'', one_sentence_reason = ''r'' \<rparr>"
  have k: "rank_key x = rank_key y" by (simp add: x_def y_def rank_key_def rating_or_zero_def)
  have nx: "imdb_rating x \<noteq> Some NaN" and ny: "imdb_rating y \<noteq> Some NaN"
    by (simp_all add: x_def y_def)
  have "rank_and_select (\<lambda>xs. xs) [x, y] 2 = [x, y]
      \<and> rank_and_select (\<lambda>xs. xs) [y, x] 2 = [y, x]"
    by (simp add: rank_and_select_def slice_to_def k nx ny)
  then show ?thesis unfolding x_def y_def .
qed

lemma rank_key_unknown_as_zero: "rank_key (unknown_as_zero e) = rank_key e"
  by (cases "imdb_rating e") (simp_all add: unknown_as_zero_def rank_key_def rating_or_zero_def)

lemma unknown_as_zero_nan:
  "imdb_rating (unknown_as_zero e) = Some NaN \<longleftrightarrow> imdb_rating e = Some NaN"
  by (cases "imdb_rating e") (simp_all add: unknown_as_zero_def)

lemma insort_key_map_same:
  assumes "\<And>x. f (g x) = f x"
  shows "insort_key f (g x) (map g xs) = map g (insort_key f x xs)"
  by (induction xs) (simp_all add: assms)

lemma sort_key_map_same:
  assumes "\<And>x. f (g x) = f x"
  shows "sort_key f (map g xs) = map g (sort_key f xs)"
  by (induction xs) (simp_all add: insort_key_map_same[of f g, OF assms])

text \<open>
  C9, as amended. \<open>rank_and_select\<close> has no failing branch, and for every candidate list
  without a NaN rating it orders the candidates as if an absent rating were 0.0: replacing
  the absent ratings by 0.0 before or after ranking gives the same list, and the output is
  the slice of the stably sorted list in which a rating, 0.0 for an absent one, stands
  before every lower one and equal ratings stand by title ascending. So a candidate with an
  absent rating is never placed before one with a known rating above 0, and against a known
  rating of exactly 0.0 the title decides.
\<close>

theorem rank_and_select_unknown_rating:
  assumes nonan: "\<forall>e\<in>set c. imdb_rating e \<noteq> Some NaN"
  shows "map unknown_as_zero (rank_and_select sorted_nan c n)
           = rank_and_select sorted_nan (map unknown_as_zero c) n
       \<and> (\<exists>full. mset full = mset c \<and> sorted_wrt ranks_before_zero full
                \<and> (\<forall>k. filter (\<lambda>e. (rating_or_zero e, title e) = k) full
                         = filter (\<lambda>e. (rating_or_zero e, title e) = k) c)
                \<and> rank_and_select sorted_nan c n = slice_to n full)
       \<and> (\<forall>i j x. i < j \<and> j < length (rank_and_select sorted_nan c n)
              \<and> imdb_rating (rank_and_select sorted_nan c n ! i) = None
              \<and> imdb_rating (rank_and_select sorted_nan c n ! j) = Some x
            \<longrightarrow> \<not> flt_lt (Finite 0) x)"
proof (intro conjI allI impI)
  let ?out = "rank_and_select sorted_nan c n"
  let ?full = "sort_key rank_key c"
  have out: "?out = slice_to n ?full" by (rule rank_and_select_sort[OF nonan])
  have "\<forall>e\<in>set (map unknown_as_zero c). imdb_rating e \<noteq> Some NaN"
    using nonan by (simp add: unknown_as_zero_nan)
  then have "rank_and_select sorted_nan (map unknown_as_zero c) n
               = slice_to n (sort_key rank_key (map unknown_as_zero c))"
    by (rule rank_and_select_sort)
  then show "map unknown_as_zero ?out = rank_and_select sorted_nan (map unknown_as_zero c) n"
    unfolding out
    by (simp only: sort_key_map_same[of rank_key unknown_as_zero, OF rank_key_unknown_as_zero]
          slice_to_map)
  show "\<exists>full. mset full = mset c \<and> sorted_wrt ranks_before_zero full
                \<and> (\<forall>k. filter (\<lambda>e. (rating_or_zero e, title e) = k) full
                         = filter (\<lambda>e. (rating_or_zero e, title e) = k) c)
                \<and> ?out = slice_to n full"
    using sorted_candidates[OF nonan] out by (intro exI[of _ ?full]) simp
next
  fix i j x
  let ?out = "rank_and_select sorted_nan c n"
  assume a: "i < j \<and> j < length ?out \<and> imdb_rating (?out ! i) = None
             \<and> imdb_rating (?out ! j) = Some x"
  obtain k where "?out = take k (sort_key rank_key c)"
    unfolding rank_and_select_sort[OF nonan] using slice_to_take by blast
  then have "sorted_wrt ranks_before_zero ?out"
    using sorted_candidates(2)[OF nonan] by simp
  moreover have "i < j" "j < length ?out" using a by simp_all
  ultimately have "ranks_before_zero (?out ! i) (?out ! j)"
    by (rule sorted_wrt_nth_less)
  then show "\<not> flt_lt (Finite 0) x"
    using a by (auto simp: ranks_before_zero_def rating_or_zero_known rating_or_zero_unknown
                  flt_lt_def)
qed

text \<open>
  An absent rating and a known rating of 0.0: the absent one is first, by title, and the
  known rating is not above 0.
\<close>

theorem rank_and_select_unknown_rating_witness:
  "list_all (\<lambda>e. imdb_rating e \<noteq> Some NaN) [\<lparr> season = 1, episode = 1, title = ''A'', air_date = ''2001-01-01'',
          imdb_id = ''tt0000001'', imdb_rating = None,
          features_george_huang = True, heavy_finn_munch = False, heavy_trial = False,
          one_sentence_plot = ''p'', one_sentence_reason = ''r'' \<rparr>,
        \<lparr> season = 1, episode = 2, title = ''B'', air_date = ''2001-01-01'',
          imdb_id = ''tt0000001'', imdb_rating = Some (Finite 0),
          features_george_huang = True, heavy_finn_munch = False, heavy_trial = False,
          one_sentence_plot = ''p'', one_sentence_reason = ''r'' \<rparr>]
   \<and> rank_and_select (\<lambda>xs. xs) [\<lparr> season = 1, episode = 1, title = ''A'', air_date = ''2001-01-01'',
          imdb_id = ''tt0000001'', imdb_rating = None,
          features_george_huang = True, heavy_finn_munch = False, heavy_trial = False,
          one_sentence_plot = ''p'', one_sentence_reason = ''r'' \<rparr>,
        \<lparr> season = 1, episode = 2, title = ''B'', air_date = ''2001-01-01'',
          imdb_id = ''tt0000001'', imdb_rating = Some (Finite 0),
          features_george_huang = True, heavy_finn_munch = False, heavy_trial = False,
          one_sentence_plot = ''p'', one_sentence_reason = ''r'' \<rparr>] 2
       = [\<lparr> season = 1, episode = 1, title = ''A'', air_date = ''2001-01-01'',
          imdb_id = ''tt0000001'', imdb_rating = None,
          features_george_huang = True, heavy_finn_munch = False, heavy_trial = False,
          one_sentence_plot = ''p'', one_sentence_reason = ''r'' \<rparr>,
        \<lparr> season = 1, episode = 2, title = ''B'', air_date = ''2001-01-01'',
          imdb_id = ''tt0000001'', imdb_rating = Some (Finite 0),
          features_george_huang = True, heavy_finn_munch = False, heavy_trial = False,
          one_sentence_plot = ''p'', one_sentence_reason = ''r'' \<rparr>]
   \<and> \<not> flt_lt (Finite 0) (Finite 0)"
proof -
  define a where "a = \<lparr> season = 1, episode = 1, title = ''A'', air_date = ''2001-01-01'',
          imdb_id = ''tt0000001'', imdb_rating = None,
          features_george_huang = True, heavy_finn_munch = False, heavy_trial = False,
          one_sentence_plot = ''p'', one_sentence_reason = ''r'' \<rparr>"
  define b where "b = \<lparr> season = 1, episode = 2, title = ''B'', air_date = ''2001-01-01'',
          imdb_id = ''tt0000001'', imdb_rating = Some (Finite 0),
          features_george_huang = True, heavy_finn_munch = False, heavy_trial = False,
          one_sentence_plot = ''p'', one_sentence_reason = ''r'' \<rparr>"
  have ka: "rank_key a = ((0, 0), ''A'')" by (simp add: a_def rank_key_def rating_or_zero_def)
  have kb: "rank_key b = ((0, 0), ''B'')" by (simp add: b_def rank_key_def rating_or_zero_def)
  have le: "(((0::int), (0::real)), ''A'') \<le> ((0, 0), ''B'')" by (simp add: less_eq_prod_def)
  have ra: "imdb_rating a = None" by (simp add: a_def)
  have rb: "imdb_rating b = Some (Finite 0)" by (simp add: b_def)
  have e: "rank_and_select (\<lambda>xs. xs) [a, b] 2 = [a, b]"
    by (simp add: rank_and_select_def slice_to_def ka kb le ra rb)
  have nonan: "\<forall>e\<in>set [a, b]. imdb_rating e \<noteq> Some NaN" by (simp add: ra rb)
  have h: "(0::nat) < 1 \<and> 1 < length (rank_and_select (\<lambda>xs. xs) [a, b] 2)
     \<and> imdb_rating (rank_and_select (\<lambda>xs. xs) [a, b] 2 ! 0) = None
     \<and> imdb_rating (rank_and_select (\<lambda>xs. xs) [a, b] 2 ! 1) = Some (Finite 0)"
    unfolding e by (simp add: ra rb)
  have "\<forall>i j x. i < j \<and> j < length (rank_and_select (\<lambda>xs. xs) [a, b] 2)
          \<and> imdb_rating (rank_and_select (\<lambda>xs. xs) [a, b] 2 ! i) = None
          \<and> imdb_rating (rank_and_select (\<lambda>xs. xs) [a, b] 2 ! j) = Some x
        \<longrightarrow> \<not> flt_lt (Finite 0) x"
    by (rule rank_and_select_unknown_rating[OF nonan, THEN conjunct2, THEN conjunct2])
  with h have "\<not> flt_lt (Finite 0) (Finite 0)" by blast
  moreover have "list_all (\<lambda>e. imdb_rating e \<noteq> Some NaN) [a, b]"
    using nonan by (simp only: list_all_iff)
  ultimately have "list_all (\<lambda>e. imdb_rating e \<noteq> Some NaN) [a, b]
     \<and> rank_and_select (\<lambda>xs. xs) [a, b] 2 = [a, b] \<and> \<not> flt_lt (Finite 0) (Finite 0)"
    using e by blast
  then show ?thesis unfolding a_def b_def .
qed

text \<open>
  C9 as stated fails: a candidate with an absent rating and title \<open>A\<close> is placed before a
  candidate with the known rating 0.0, which lies in [0,10], and title \<open>B\<close>.
\<close>

theorem rank_and_select_unknown_counterexample:
  "rank_and_select (\<lambda>xs. xs) [\<lparr> season = 1, episode = 2, title = ''B'', air_date = ''2001-01-01'',
          imdb_id = ''tt0000001'', imdb_rating = Some (Finite 0),
          features_george_huang = True, heavy_finn_munch = False, heavy_trial = False,
          one_sentence_plot = ''p'', one_sentence_reason = ''r'' \<rparr>,
        \<lparr> season = 1, episode = 1, title = ''A'', air_date = ''2001-01-01'',
          imdb_id = ''tt0000001'', imdb_rating = None,
          features_george_huang = True, heavy_finn_munch = False, heavy_trial = False,
          one_sentence_plot = ''p'', one_sentence_reason = ''r'' \<rparr>] 2
     = [\<lparr> season = 1, episode = 1, title = ''A'', air_date = ''2001-01-01'',
          imdb_id = ''tt0000001'', imdb_rating = None,
          features_george_huang = True, heavy_finn_munch = False, heavy_trial = False,
          one_sentence_plot = ''p'', one_sentence_reason = ''r'' \<rparr>,
        \<lparr> season = 1, episode = 2, title = ''B'', air_date = ''2001-01-01'',
          imdb_id = ''tt0000001'', imdb_rating = Some (Finite 0),
          features_george_huang = True, heavy_finn_munch = False, heavy_trial = False,
          one_sentence_plot = ''p'', one_sentence_reason = ''r'' \<rparr>]"
proof -
  define a where "a = \<lparr> season = 1, episode = 1, title = ''A'', air_date = ''2001-01-01'',
          imdb_id = ''tt0000001'', imdb_rating = None,
          features_george_huang = True, heavy_finn_munch = False, heavy_trial = False,
          one_sentence_plot = ''p'', one_sentence_reason = ''r'' \<rparr>"
  define b where "b = \<lparr> season = 1, episode = 2, title = ''B'', air_date = ''2001-01-01'',
          imdb_id = ''tt0000001'', imdb_rating = Some (Finite 0),
          features_george_huang = True, heavy_finn_munch = False, heavy_trial = False,
          one_sentence_plot = ''p'', one_sentence_reason = ''r'' \<rparr>"
  have ka: "rank_key a = ((0, 0), ''A'')" by (simp add: a_def rank_key_def rating_or_zero_def)
  have kb: "rank_key b = ((0, 0), ''B'')" by (simp add: b_def rank_key_def rating_or_zero_def)
  have le: "(((0::int), (0::real)), ''A'') \<le> ((0, 0), ''B'')" by (simp add: less_eq_prod_def)
  have ra: "imdb_rating a = None" by (simp add: a_def)
  have rb: "imdb_rating b = Some (Finite 0)" by (simp add: b_def)
  have "rank_and_select (\<lambda>xs. xs) [b, a] 2 = [a, b]"
    by (simp add: rank_and_select_def slice_to_def ka kb le ra rb)
  then show ?thesis unfolding a_def b_def .
qed

section \<open>Properties of the detail expander\<close>

lemma split_ws_words:
  assumes "\<forall>c\<in>set cur. \<not> is_space c" "w \<in> set (split_ws cur s)"
  shows "w \<noteq> [] \<and> (\<forall>c\<in>set w. \<not> is_space c)"
  using assms
proof (induction s arbitrary: cur)
  case Nil
  then show ?case by (auto split: if_splits)
next
  case (Cons c cs)
  show ?case
  proof (cases "is_space c")
    case True
    show ?thesis
    proof (cases "cur = []")
      case True
      with \<open>is_space c\<close> Cons.prems(2) have "w \<in> set (split_ws [] cs)" by simp
      then show ?thesis using Cons.IH[of "[]"] by simp
    next
      case False
      with \<open>is_space c\<close> Cons.prems(2) have "w = cur \<or> w \<in> set (split_ws [] cs)" by simp
      then show ?thesis using Cons.IH[of "[]"] Cons.prems(1) False by auto
    qed
  next
    case False
    with Cons.prems(2) have "w \<in> set (split_ws (cur @ [c]) cs)" by simp
    moreover have "\<forall>x\<in>set (cur @ [c]). \<not> is_space x" using Cons.prems(1) False by simp
    ultimately show ?thesis using Cons.IH[of "cur @ [c]"] by blast
  qed
qed

lemma split_ws_nonempty:
  assumes "cur \<noteq> [] \<or> (\<exists>c\<in>set s. \<not> is_space c)"
  shows "split_ws cur s \<noteq> []"
  using assms
proof (induction s arbitrary: cur)
  case Nil
  then show ?case by simp
next
  case (Cons c cs)
  show ?case
  proof (cases "is_space c")
    case True
    show ?thesis
    proof (cases "cur = []")
      case True
      with \<open>is_space c\<close> Cons.prems have "\<exists>c\<in>set cs. \<not> is_space c" by auto
      then show ?thesis using Cons.IH[of "[]"] True \<open>is_space c\<close> by simp
    next
      case False
      then show ?thesis using \<open>is_space c\<close> by simp
    qed
  next
    case False
    then show ?thesis using Cons.IH[of "cur @ [c]"] by simp
  qed
qed

lemma str_strip_nonempty:
  assumes "\<exists>c\<in>set x. \<not> is_space c"
  shows "str_strip x \<noteq> []"
proof -
  let ?d = "dropWhile is_space x"
  have d: "?d \<noteq> []" using assms by (simp add: dropWhile_eq_Nil_conv)
  then have "\<not> is_space (hd ?d)" by (rule hd_dropWhile)
  moreover have "hd ?d \<in> set (rev ?d)" using d by simp
  ultimately have "dropWhile is_space (rev ?d) \<noteq> []"
    by (auto simp: dropWhile_eq_Nil_conv)
  then show ?thesis by (simp add: str_strip_def)
qed

lemma str_join_first: "set w \<subseteq> set (str_join sep (w # ws))"
  by (cases ws) auto

lemma str_join_good:
  assumes "\<forall>w\<in>set ws. w \<noteq> [] \<and> (\<forall>c\<in>set w. \<not> is_space c)" "ws \<noteq> []"
  shows "\<exists>c\<in>set (str_join sep ws). \<not> is_space c"
proof -
  obtain w rest where ws: "ws = w # rest" using assms(2) by (cases ws) auto
  then have "w \<noteq> []" "\<forall>c\<in>set w. \<not> is_space c" using assms(1) by auto
  then obtain c where "c \<in> set w" "\<not> is_space c" by (cases w) auto
  then show ?thesis using str_join_first[of w sep rest] ws by blast
qed

lemma word_chunks_good:
  assumes good: "\<forall>w\<in>set words. w \<noteq> [] \<and> (\<forall>c\<in>set w. \<not> is_space c)"
    and b: "b \<in> set (word_chunks m approx words)"
  shows "b \<noteq> []"
proof -
  from b obtain i where bi: "b = str_strip (str_join '' '' (slice (i * approx) ((i + 1) * approx) words))"
    and ne: "str_join '' '' (slice (i * approx) ((i + 1) * approx) words) \<noteq> []"
    unfolding word_chunks_def by auto
  let ?ws = "slice (i * approx) ((i + 1) * approx) words"
  have "?ws \<noteq> []" using ne by auto
  moreover have "set ?ws \<subseteq> set words"
    unfolding slice_def by (meson set_take_subset set_drop_subset subset_trans)
  ultimately have "\<exists>c\<in>set (str_join '' '' ?ws). \<not> is_space c"
    using good by (intro str_join_good) auto
  then show ?thesis unfolding bi by (rule str_strip_nonempty)
qed

lemma word_chunks_nonempty:
  assumes good: "\<forall>w\<in>set words. w \<noteq> [] \<and> (\<forall>c\<in>set w. \<not> is_space c)"
    and "words \<noteq> []" "0 < approx" "0 < m"
  shows "word_chunks m approx words \<noteq> []"
proof -
  define chunk where "chunk = (\<lambda>i. str_join '' '' (slice (i * approx) ((i + 1) * approx) words))"
  have "slice (0 * approx) ((0 + 1) * approx) words = take approx words"
    by (simp add: slice_def)
  moreover have "take approx words \<noteq> []" using assms(2,3) by simp
  moreover have "set (take approx words) \<subseteq> set words" by (rule set_take_subset)
  ultimately have "\<exists>c\<in>set (chunk 0). \<not> is_space c"
    unfolding chunk_def using good by (intro str_join_good) auto
  then have ne: "chunk 0 \<noteq> []" by auto
  have "0 \<in> set [0 ..< m]" using assms(4) by simp
  then have "chunk 0 \<in> set (map chunk [0 ..< m])" by (simp only: set_map) (rule imageI)
  with ne have "filter (\<lambda>c. c \<noteq> []) (map chunk [0 ..< m]) \<noteq> []"
    unfolding filter_empty_conv by blast
  then show ?thesis unfolding word_chunks_def chunk_def by simp
qed

lemma pad_bullets_ok:
  assumes "bullets \<noteq> []"
  shows "\<exists>bs. pad_bullets m bullets = Inr bs \<and> m \<le> length bs \<and> set bs \<subseteq> set bullets"
  using assms
proof (induction m bullets rule: pad_bullets.induct)
  case (1 m bullets)
  show ?case
  proof (cases "length bullets < m")
    case True
    have "bullets @ [last bullets] \<noteq> []" by simp
    with "1.IH"[OF True "1.prems"] obtain bs where
      bs: "pad_bullets m (bullets @ [last bullets]) = Inr bs" "m \<le> length bs"
          "set bs \<subseteq> set (bullets @ [last bullets])"
      by blast
    have "set (bullets @ [last bullets]) \<subseteq> set bullets" using "1.prems" by simp
    with bs show ?thesis
      using True "1.prems" by (subst pad_bullets.simps) auto
  next
    case False
    then show ?thesis by (subst pad_bullets.simps) simp
  qed
qed

text \<open>
  A sentence with at least one character that is not white space expands to exactly four
  bullets, none of them empty.
\<close>

lemma expand_sentence_four_bullets:
  assumes "\<exists>c\<in>set sentence. \<not> is_space c"
  shows "\<exists>bs. expand_sentence_to_bullets sentence 4 = Inr bs \<and> length bs = 4 \<and> (\<forall>b\<in>set bs. b \<noteq> [])"
proof -
  have ne: "sentence \<noteq> []" using assms by auto
  let ?parts = "filter (\<lambda>p. p \<noteq> [])
                  (map str_strip (str_split CHR '','' (str_replace '' and '' '', '' sentence)))"
  show ?thesis
  proof (cases "length ?parts < 4")
    case False
    then have "expand_sentence_to_bullets sentence 4 = Inr (take 4 ?parts)"
      using ne by (simp add: expand_sentence_to_bullets_def Let_def)
    moreover have "length (take 4 ?parts) = 4" using False by simp
    moreover have "\<forall>b\<in>set (take 4 ?parts). b \<noteq> []"
      using set_take_subset[of 4 ?parts] by auto
    ultimately show ?thesis by blast
  next
    case True
    let ?words = "str_split_ws sentence"
    let ?approx = "max 1 (length ?words div 4)"
    have good: "\<forall>w\<in>set ?words. w \<noteq> [] \<and> (\<forall>c\<in>set w. \<not> is_space c)"
      unfolding str_split_ws_def using split_ws_words[of "[]"] by simp
    have wne: "?words \<noteq> []"
      unfolding str_split_ws_def using split_ws_nonempty[of "[]" sentence] assms by simp
    have cne: "word_chunks 4 ?approx ?words \<noteq> []"
      using word_chunks_nonempty[OF good wne, of ?approx 4] by simp
    from pad_bullets_ok[OF cne, of 4] obtain bs where
      bs: "pad_bullets 4 (word_chunks 4 ?approx ?words) = Inr bs" "4 \<le> length bs"
          "set bs \<subseteq> set (word_chunks 4 ?approx ?words)"
      by blast
    have "expand_sentence_to_bullets sentence 4 = Inr (take 4 bs)"
      using ne True bs(1) by (simp add: expand_sentence_to_bullets_def Let_def)
    moreover have "length (take 4 bs) = 4" using bs(2) by simp
    moreover have "\<forall>b\<in>set (take 4 bs). b \<noteq> []"
      using set_take_subset[of 4 bs] bs(3) word_chunks_good[OF good] by blast
    ultimately show ?thesis by blast
  qed
qed

text \<open>
  C2. A free-text field that is not empty should give four bullets that are not empty. On a
  field of white space only the padding loop reads the last element of an empty list:
  \<open>expand_sentence_to_bullets\<close> and with it \<open>details_expand\<close> raise \<open>IndexError\<close>.
\<close>

theorem details_expand_blank_field:
  "expand_sentence_to_bullets '' '' 4 = Inl IndexError
   \<and> details_expand
        \<lparr> season = 3, episode = 1, title = ''Repression'', air_date = ''2001-09-28'',
          imdb_id = ''tt0629715'', imdb_rating = Some (Finite (82 / 10)),
          features_george_huang = True, heavy_finn_munch = False, heavy_trial = False,
          one_sentence_plot = '' '', one_sentence_reason = ''Classic'' \<rparr>
       = Inl IndexError"
  by code_simp

section \<open>Properties of the detail lookup\<close>

lemma filter_find_case:
  "(case filter P xs of [] \<Rightarrow> a | e # es \<Rightarrow> b e) = (case find P xs of None \<Rightarrow> a | Some e \<Rightarrow> b e)"
  by (induction xs) auto

lemma lower_char_code: "(of_char (lower_char c) :: nat) =
   (if is_capital c then of_char c + 32 else of_char c)"
  by (auto simp: lower_char_def is_capital_def Let_def)

text \<open>Two characters have the same lower case exactly when they are the same letter.\<close>

lemma lower_char_same: "lower_char c = lower_char d \<longleftrightarrow> same_letter c d"
proof -
  have "lower_char c = lower_char d
          \<longleftrightarrow> (of_char (lower_char c) :: nat) = of_char (lower_char d)"
    by (simp only: of_char_eq_iff_nat)
  also have "\<dots> \<longleftrightarrow> (of_char c :: nat) = of_char d
       \<or> (is_capital c \<and> (of_char d :: nat) = of_char c + 32)
       \<or> (is_capital d \<and> (of_char c :: nat) = of_char d + 32)"
    unfolding lower_char_code is_capital_def Let_def by auto
  also have "\<dots> \<longleftrightarrow> same_letter c d"
    unfolding same_letter_def by (simp only: of_char_eq_iff_nat)
  finally show ?thesis .
qed

lemma str_lower_same: "str_lower s = str_lower t \<longleftrightarrow> same_up_to_case s t"
proof (induction s arbitrary: t)
  case Nil
  show ?case by (simp add: str_lower_def same_up_to_case_def)
next
  case (Cons c cs)
  show ?case
  proof (cases t)
    case Nil
    then show ?thesis by (simp add: str_lower_def same_up_to_case_def)
  next
    case (Cons d ds)
    have "str_lower (c # cs) = str_lower (d # ds)
            \<longleftrightarrow> lower_char c = lower_char d \<and> str_lower cs = str_lower ds"
      by (simp add: str_lower_def)
    also have "\<dots> \<longleftrightarrow> same_letter c d \<and> same_up_to_case cs ds"
      by (simp only: lower_char_same Cons.IH)
    also have "\<dots> \<longleftrightarrow> same_up_to_case (c # cs) (d # ds)"
      by (simp add: same_up_to_case_def)
    finally show ?thesis unfolding Cons .
  qed
qed

text \<open>
  C8. The detail lookup matches titles without regard to case: for every catalogue and query
  it takes the first record whose title is the stripped query up to the case of its letters
  (the two are equal after lower-casing both), and expands it. So when some record's title
  differs from the stripped query in case alone, the outcome is not the not-found message.
\<close>

theorem details_mode_first_match:
  "details_mode eps q =
     (case find (\<lambda>e. same_up_to_case (title e) (str_strip q)) eps of
        None \<Rightarrow> NotFound (''No episode found with title '' @ [CHR 0x27] @ str_strip q @ [CHR 0x27] @ ''.'')
      | Some e \<Rightarrow> (case details_expand e of Inl ex \<Rightarrow> Raised ex | Inr d \<Rightarrow> Shown d))
   \<and> ((\<exists>e \<in> set eps. same_up_to_case (title e) (str_strip q))
        \<longrightarrow> (\<forall>m. details_mode eps q \<noteq> NotFound m))"
proof
  show first: "details_mode eps q =
     (case find (\<lambda>e. same_up_to_case (title e) (str_strip q)) eps of
        None \<Rightarrow> NotFound (''No episode found with title '' @ [CHR 0x27] @ str_strip q @ [CHR 0x27] @ ''.'')
      | Some e \<Rightarrow> (case details_expand e of Inl ex \<Rightarrow> Raised ex | Inr d \<Rightarrow> Shown d))"
    unfolding details_mode_def Let_def filter_find_case str_lower_same ..
  show "(\<exists>e \<in> set eps. same_up_to_case (title e) (str_strip q))
        \<longrightarrow> (\<forall>m. details_mode eps q \<noteq> NotFound m)"
  proof
    assume "\<exists>e \<in> set eps. same_up_to_case (title e) (str_strip q)"
    then obtain e where "find (\<lambda>e. same_up_to_case (title e) (str_strip q)) eps = Some e"
      by (cases "find (\<lambda>e. same_up_to_case (title e) (str_strip q)) eps")
         (auto simp: find_None_iff)
    then show "\<forall>m. details_mode eps q \<noteq> NotFound m"
      unfolding first by (simp split: sum.splits)
  qed
qed

text \<open>The query \<open>repression\<close>, padded, against the title \<open>Repression\<close>.\<close>

theorem details_mode_first_match_witness:
  "same_up_to_case
     (title \<lparr> season = 3, episode = 1, title = ''Repression'', air_date = ''2001-09-28'',
          imdb_id = ''tt0629715'', imdb_rating = Some (Finite 8.2),
          features_george_huang = True, heavy_finn_munch = False, heavy_trial = False,
          one_sentence_plot = ''p'', one_sentence_reason = ''r'' \<rparr>)
     (str_strip '' repression '')
   \<and> (\<forall>m. details_mode
          [\<lparr> season = 3, episode = 1, title = ''Repression'', air_date = ''2001-09-28'',
          imdb_id = ''tt0629715'', imdb_rating = Some (Finite 8.2),
          features_george_huang = True, heavy_finn_munch = False, heavy_trial = False,
          one_sentence_plot = ''p'', one_sentence_reason = ''r'' \<rparr>] '' repression ''
        \<noteq> NotFound m)"
proof -
  define e where "e = \<lparr> season = 3, episode = 1, title = ''Repression'', air_date = ''2001-09-28'',
          imdb_id = ''tt0629715'', imdb_rating = Some (Finite 8.2),
          features_george_huang = True, heavy_finn_munch = False, heavy_trial = False,
          one_sentence_plot = ''p'', one_sentence_reason = ''r'' \<rparr>"
  have t: "title e = ''Repression''" by (simp add: e_def)
  have l: "same_up_to_case ''Repression'' (str_strip '' repression '')"
    by code_simp
  have h: "same_up_to_case (title e) (str_strip '' repression '')"
    unfolding t by (rule l)
  then have "\<exists>x \<in> set [e]. same_up_to_case (title x) (str_strip '' repression '')"
    by simp
  with details_mode_first_match[of "[e]" "'' repression ''", THEN conjunct2]
  have "\<forall>m. details_mode [e] '' repression '' \<noteq> NotFound m" by blast
  with h have "same_up_to_case (title e) (str_strip '' repression '')
      \<and> (\<forall>m. details_mode [e] '' repression '' \<noteq> NotFound m)" by blast
  then show ?thesis unfolding e_def .
qed

end
